theory Spec2Isabelle
  imports Main
begin

section \<open>Text\<close>

text \<open>
  Python strings are modelled as \<^typ>\<open>string\<close>: a \<^typ>\<open>char\<close> stands for a code
  point below 256. On these code points \<^verbatim>\<open>str.isspace\<close>, which decides what
  \<^verbatim>\<open>str.strip()\<close> removes and what \<^verbatim>\<open>\s\<close> matches in a \<^verbatim>\<open>str\<close> pattern, holds
  of U+0009 to U+000D, U+001C to U+0020, U+0085 and U+00A0, and \<^verbatim>\<open>\d\<close> matches the
  ten ASCII digits only.
\<close>

definition isspace :: "char \<Rightarrow> bool" where
  "isspace c =
     (let n = (of_char c :: nat)
      in (9 \<le> n \<and> n \<le> 13) \<or> (28 \<le> n \<and> n \<le> 32) \<or> n = 133 \<or> n = 160)"

definition isdecimal :: "char \<Rightarrow> bool" where
  "isdecimal c = (let n = (of_char c :: nat) in 48 \<le> n \<and> n \<le> 57)"

definition newline :: char where
  "newline = CHR 0x0A"

text \<open>\<^verbatim>\<open>v.strip()\<close>: leading and trailing whitespace removed.\<close>

definition lstrip :: "string \<Rightarrow> string" where
  "lstrip v = dropWhile isspace v"

definition rstrip :: "string \<Rightarrow> string" where
  "rstrip v = rev (dropWhile isspace (rev v))"

definition strip :: "string \<Rightarrow> string" where
  "strip v = rstrip (lstrip v)"

section \<open>Regular expressions\<close>

text \<open>
  The fragment of the \<^verbatim>\<open>re\<close> syntax that the two patterns of \<^verbatim>\<open>guess_kind\<close> use.
  \<^verbatim>\<open>r+\<close> and \<^verbatim>\<open>r{n,}\<close> are the usual abbreviations of \<^verbatim>\<open>rr*\<close> and of n copies of
  \<^verbatim>\<open>r\<close> followed by \<^verbatim>\<open>r*\<close>.
\<close>

datatype atom =
    Chr char    \<comment> \<open>a literal character, escaped or not\<close>
  | Digit       \<comment> \<open>\<^verbatim>\<open>\d\<close>\<close>
  | Space       \<comment> \<open>\<^verbatim>\<open>\s\<close>\<close>

datatype regex =
    Dot                   \<comment> \<open>\<^verbatim>\<open>.\<close>: any character but a newline\<close>
  | Atom atom
  | Class "atom list"     \<comment> \<open>\<^verbatim>\<open>[...]\<close>\<close>
  | Seq regex regex
  | Opt regex             \<comment> \<open>\<^verbatim>\<open>r?\<close>\<close>
  | Star regex            \<comment> \<open>\<^verbatim>\<open>r*\<close>\<close>
  | Dollar                \<comment> \<open>\<^verbatim>\<open>$\<close>\<close>

definition one_or_more :: "regex \<Rightarrow> regex" where
  "one_or_more r = Seq r (Star r)"

fun at_least :: "nat \<Rightarrow> regex \<Rightarrow> regex" where
  "at_least 0 r = Star r"
| "at_least (Suc n) r = Seq r (at_least n r)"

fun atom_matches :: "atom \<Rightarrow> char \<Rightarrow> bool" where
  "atom_matches (Chr a) c = (c = a)"
| "atom_matches Digit c = isdecimal c"
| "atom_matches Space c = isspace c"

definition one_char :: "(char \<Rightarrow> bool) \<Rightarrow> string \<Rightarrow> string list" where
  "one_char P s = (case s of [] \<Rightarrow> [] | c # cs \<Rightarrow> if P c then [cs] else [])"

text \<open>
  A backtracking matcher: \<open>ends r s\<close> lists what can remain of \<open>s\<close> after \<open>r\<close> has
  matched a prefix of it, one entry per way of matching. An iteration of \<^verbatim>\<open>r*\<close> that
  consumes nothing is not repeated. \<^verbatim>\<open>$\<close> holds at the end of the string and before a
  newline that ends it.
\<close>

function ends :: "regex \<Rightarrow> string \<Rightarrow> string list" where
  "ends Dot s = one_char (\<lambda>c. c \<noteq> newline) s"
| "ends (Atom a) s = one_char (atom_matches a) s"
| "ends (Class as) s = one_char (\<lambda>c. \<exists>a \<in> set as. atom_matches a c) s"
| "ends (Seq r1 r2) s = concat (map (ends r2) (ends r1 s))"
| "ends (Opt r) s = ends r s @ [s]"
| "ends (Star r) s =
     concat (map (ends (Star r)) (filter (\<lambda>s'. length s' < length s) (ends r s))) @ [s]"
| "ends Dollar s = (if s = [] \<or> s = [newline] then [s] else [])"
  by pat_completeness auto
termination
  by (relation "measures [\<lambda>(r, s). size r, \<lambda>(r, s). length s]") auto

declare ends.simps(6) [simp del]

text \<open>\<^verbatim>\<open>re.fullmatch(r, s)\<close> succeeds when some way of matching uses up the string.\<close>

definition fullmatch :: "regex \<Rightarrow> string \<Rightarrow> bool" where
  "fullmatch r s = ([] \<in> set (ends r s))"

section \<open>The target classifier\<close>

text \<open>\<^verbatim>\<open>r".+@.+\..+"\<close>\<close>

definition email_re :: regex where
  "email_re =
     Seq (one_or_more Dot) (Seq (Atom (Chr CHR ''@'')) (Seq (one_or_more Dot)
       (Seq (Atom (Chr CHR ''.'')) (one_or_more Dot))))"

text \<open>\<^verbatim>\<open>r"\+?\d[\d\s().-]{6,}$"\<close>\<close>

definition phone_re :: regex where
  "phone_re =
     Seq (Opt (Atom (Chr CHR ''+''))) (Seq (Atom Digit)
       (Seq (at_least 6 (Class [Digit, Space, Chr CHR ''('', Chr CHR '')'', Chr CHR ''.'',
                                Chr CHR ''-'']))
         Dollar))"

text \<open>\<^verbatim>\<open>guess_kind\<close> of \<^verbatim>\<open>mother_agent.py\<close>; \<^verbatim>\<open>run_case.py\<close> repeats it word for word.\<close>

definition guess_kind :: "string \<Rightarrow> string" where
  "guess_kind v0 =
     (let v = strip v0 in
      if fullmatch email_re v then ''email''
      else if fullmatch phone_re v then ''phone''
      else if CHR ''.'' \<in> set v \<and> CHR '' '' \<notin> set v then ''domain''
      else ''username'')"


section \<open>Faults, processes and the world\<close>

text \<open>
  A raised instance of \<^verbatim>\<open>Exception\<close>: its class, as far as the code tells classes apart,
  and the text that \<^verbatim>\<open>str(e)\<close> gives.
\<close>

datatype exn_class = TimeoutExpired | KeyError | RuntimeError | ValueError | OtherException

datatype exn = Exn (cls: exn_class) (str: string)

text \<open>
  \<^verbatim>\<open>subprocess.CompletedProcess\<close>, run with \<^verbatim>\<open>text=True, capture_output=True\<close>: both
  streams are strings.
\<close>

record CompletedProcess =
  returncode :: int
  stdout :: string
  stderr :: string

type_synonym outcome = "exn + CompletedProcess"

text \<open>
  What the program does to its surroundings is kept as a trace, oldest event first: the
  processes it launched and what came of each, the times it slept, and its log records
  (the \<^verbatim>\<open>logger\<close> method, the message and its arguments as text). The clock is what
  \<^verbatim>\<open>datetime.now()\<close> reads, in seconds: the wall clock in local time. It moves on while
  the program sleeps; while a process runs it changes by what the surroundings say, which
  is less than nothing when the clock is set back (a correction of the time, the end of
  summer time).
\<close>

datatype logger = Info | Warning | Error | Exception

datatype event =
    Launch "string list" outcome
  | Sleep nat
  | Log logger string "string list"

record world =
  clock :: int
  trace :: "event list"

type_synonym environ = "string \<rightharpoonup> string"

text \<open>
  \<^verbatim>\<open>subprocess.run\<close> is the surroundings' part: given all that went before, the command
  line, the environment and the timeout, it raises or returns, and the clock has changed
  by some amount meanwhile.
\<close>

type_synonym subprocess =
  "world \<Rightarrow> string list \<Rightarrow> environ option \<Rightarrow> nat option \<Rightarrow> outcome \<times> int"

definition subprocess_run ::
  "subprocess \<Rightarrow> string list \<Rightarrow> environ option \<Rightarrow> nat option \<Rightarrow> world \<Rightarrow> outcome \<times> world" where
  "subprocess_run run args env timeout w =
     (case run w args env timeout of
        (out, d) \<Rightarrow> (out, w\<lparr>clock := clock w + d, trace := trace w @ [Launch args out]\<rparr>))"

definition sleep :: "nat \<Rightarrow> world \<Rightarrow> world" where
  "sleep d w = w\<lparr>clock := clock w + int d, trace := trace w @ [Sleep d]\<rparr>"

definition now :: "world \<Rightarrow> int" where
  "now w = clock w"

definition logger_info :: "string \<Rightarrow> string list \<Rightarrow> world \<Rightarrow> world" where
  "logger_info msg args w = w\<lparr>trace := trace w @ [Log Info msg args]\<rparr>"

definition logger_warning :: "string \<Rightarrow> string list \<Rightarrow> world \<Rightarrow> world" where
  "logger_warning msg args w = w\<lparr>trace := trace w @ [Log Warning msg args]\<rparr>"

definition logger_error :: "string \<Rightarrow> string list \<Rightarrow> world \<Rightarrow> world" where
  "logger_error msg args w = w\<lparr>trace := trace w @ [Log Error msg args]\<rparr>"

definition logger_exception :: "string \<Rightarrow> string list \<Rightarrow> world \<Rightarrow> world" where
  "logger_exception msg args w = w\<lparr>trace := trace w @ [Log Exception msg args]\<rparr>"

text \<open>The events between an earlier world and a later one, and those that are not log records.\<close>

definition events_since :: "world \<Rightarrow> world \<Rightarrow> event list" where
  "events_since w w' = drop (length (trace w)) (trace w')"

fun is_Log :: "event \<Rightarrow> bool" where
  "is_Log (Log m msg args) = True"
| "is_Log e = False"

definition actions :: "world \<Rightarrow> world \<Rightarrow> event list" where
  "actions w w' = filter (\<lambda>e. \<not> is_Log e) (events_since w w')"

subsection \<open>Formatting\<close>

function str_nat :: "nat \<Rightarrow> string" where
  "str_nat n =
     (if n < 10 then [''0123456789'' ! n]
      else str_nat (n div 10) @ [''0123456789'' ! (n mod 10)])"
  by pat_completeness auto
termination
  by (relation "measure (\<lambda>n. n)") auto

declare str_nat.simps [simp del]

definition str_int :: "int \<Rightarrow> string" where
  "str_int i = (if i < 0 then CHR ''-'' # str_nat (nat (- i)) else str_nat (nat i))"

text \<open>\<^verbatim>\<open>sep.join(xs)\<close>\<close>

fun join :: "string \<Rightarrow> string list \<Rightarrow> string" where
  "join sep [] = []"
| "join sep [x] = x"
| "join sep (x # y # ys) = x @ sep @ join sep (y # ys)"

text \<open>
  A \<^verbatim>\<open>pathlib.Path\<close> is modelled by its text. \<^verbatim>\<open>name\<close> is the last component;
  \<^verbatim>\<open>stem\<close> is the name without its last suffix, when the last dot is neither the first
  nor the last character of the name.
\<close>

type_synonym path = string

definition path_name :: "path \<Rightarrow> string" where
  "path_name p = rev (takeWhile (\<lambda>c. c \<noteq> CHR ''/'') (rev p))"

definition path_stem :: "path \<Rightarrow> string" where
  "path_stem p =
     (let name = path_name p;
          after = length (takeWhile (\<lambda>c. c \<noteq> CHR ''.'') (rev name))
      in if CHR ''.'' \<in> set name \<and> 0 < after \<and> Suc after < length name
         then take (length name - Suc after) name
         else name)"

text \<open>\<^verbatim>\<open>directory / name\<close>, for a name of one component.\<close>

definition path_join :: "path \<Rightarrow> string \<Rightarrow> path" where
  "path_join d n = d @ ''/'' @ n"

text \<open>
  The two characters of the messages that lie beyond U+00FF are written as their UTF-8
  bytes, as in the source file: the arrow U+2192 and the ellipsis U+2026.
\<close>

definition arrow :: string where
  "arrow = [CHR 0xE2, CHR 0x86, CHR 0x92]"

definition ellipsis :: string where
  "ellipsis = [CHR 0xE2, CHR 0x80, CHR 0xA6]"

section \<open>Task results and configuration\<close>

datatype TaskStatus = PENDING | RUNNING | COMPLETED | FAILED

fun status_value :: "TaskStatus \<Rightarrow> string" where
  "status_value PENDING = ''pending''"
| "status_value RUNNING = ''running''"
| "status_value COMPLETED = ''completed''"
| "status_value FAILED = ''failed''"

record TaskResult =
  target :: string
  agent :: string
  status :: TaskStatus
  start_time :: "int option"
  end_time :: "int option"
  task_returncode :: "int option"
  error :: "string option"

record Config =
  case_dir :: path
  report_dir :: path
  agents :: "string \<rightharpoonup> path"
  max_retries :: int
  parallel :: bool
  worker_count :: int

text \<open>\<^verbatim>\<open>str(KeyError(k))\<close> is the key in quotes.\<close>

definition key_error :: "string \<Rightarrow> exn" where
  "key_error k = Exn KeyError ([CHR 0x27] @ k @ [CHR 0x27])"

section \<open>The retry policy\<close>

text \<open>\<^verbatim>\<open>sh\<close>: \<^verbatim>\<open>subprocess.run(args, text=True, capture_output=True, env=env, timeout=timeout)\<close>\<close>

definition sh ::
  "subprocess \<Rightarrow> string list \<Rightarrow> environ option \<Rightarrow> nat option \<Rightarrow> world \<Rightarrow> outcome \<times> world" where
  "sh run args env timeout w = subprocess_run run args env timeout w"

text \<open>
  The loop of \<^verbatim>\<open>execute_agent\<close> over the attempts still to make, with \<^verbatim>\<open>last_exc\<close>.
  \<^verbatim>\<open>PY\<close> is \<^verbatim>\<open>sys.executable\<close>.
\<close>

fun attempts ::
  "subprocess \<Rightarrow> string \<Rightarrow> path \<Rightarrow> string list \<Rightarrow> Config \<Rightarrow> environ option \<Rightarrow>
   int list \<Rightarrow> exn option \<Rightarrow> world \<Rightarrow> outcome \<times> world" where
  "attempts run PY agent_path args cfg env [] last_exc w =
     (case last_exc of
        Some e \<Rightarrow> (Inl e, w)
      | None \<Rightarrow> (Inl (Exn RuntimeError ''Unknown execution failure''), w))"
| "attempts run PY agent_path args cfg env (attempt # rest) last_exc w =
     (let w1 = logger_info ''Running %s %s (attempt %d/%d)''
                 [path_name agent_path, join '' '' args, str_int attempt,
                  str_int (max_retries cfg)] w
      in case sh run (PY # agent_path # args) env None w1 of
           (Inr cp, w2) \<Rightarrow>
             (let w3 = (if stdout cp \<noteq> []
                        then logger_info ''[%s stdout] %s''
                               [path_stem agent_path, strip (stdout cp)] w2
                        else w2);
                  w4 = (if stderr cp \<noteq> []
                        then logger_warning ''[%s stderr] %s''
                               [path_stem agent_path, strip (stderr cp)] w3
                        else w3)
              in (Inr cp, w4))
         | (Inl e, w2) \<Rightarrow>
             (let w3 = (if cls e = TimeoutExpired
                        then logger_error ''Timeout running %s: %s''
                               [path_name agent_path, str e] w2
                        else logger_exception ''Error running %s'' [path_name agent_path] w2);
                  w4 = (if attempt < max_retries cfg
                        then (let delay = 2 ^ nat (attempt - 1)
                              in sleep delay
                                   (logger_info ''Retrying %s in %ds...''
                                      [path_name agent_path, str_nat delay] w3))
                        else w3)
              in attempts run PY agent_path args cfg env rest (Some e) w4))"

definition execute_agent ::
  "subprocess \<Rightarrow> string \<Rightarrow> path \<Rightarrow> string list \<Rightarrow> Config \<Rightarrow> environ option \<Rightarrow> world \<Rightarrow>
   outcome \<times> world" where
  "execute_agent run PY agent_path args cfg env w =
     attempts run PY agent_path args cfg env [1..max_retries cfg] None w"


section \<open>Running one task\<close>

definition run_username ::
  "subprocess \<Rightarrow> string \<Rightarrow> string \<Rightarrow> Config \<Rightarrow> environ option \<Rightarrow> world \<Rightarrow>
   TaskResult \<times> world" where
  "run_username run PY value cfg env w =
     (let t = \<lparr>target = value, agent = ''username'', status = RUNNING,
                start_time = Some (now w), end_time = None, task_returncode = None,
                error = None\<rparr>;
          (t', w') =
            (case agents cfg ''username'' of
               None \<Rightarrow>
                 (t\<lparr>end_time := Some (now w), status := FAILED,
                    error := Some (str (key_error ''username''))\<rparr>, w)
             | Some agent_path \<Rightarrow>
                 (case execute_agent run PY agent_path [value] cfg env w of
                    (Inr cp, w1) \<Rightarrow>
                      (let t1 = t\<lparr>end_time := Some (now w1),
                                   task_returncode := Some (returncode cp),
                                   status := (if returncode cp = 0 then COMPLETED else FAILED)\<rparr>
                       in (if returncode cp \<noteq> 0
                           then t1\<lparr>error := Some (''exit '' @ str_int (returncode cp))\<rparr>
                           else t1, w1))
                  | (Inl e, w1) \<Rightarrow>
                      (t\<lparr>end_time := Some (now w1), status := FAILED,
                         error := Some (str e)\<rparr>, w1)))
      in (t', logger_info (''Username task %s '' @ arrow @ '' %s'')
                [value, status_value (status t')] w'))"

definition run_spiderfoot ::
  "subprocess \<Rightarrow> string \<Rightarrow> string \<Rightarrow> string \<Rightarrow> Config \<Rightarrow> environ option \<Rightarrow> world \<Rightarrow>
   TaskResult \<times> world" where
  "run_spiderfoot run PY kind value cfg env w =
     (let t = \<lparr>target = kind @ '':'' @ value, agent = ''spiderfoot'', status = RUNNING,
                start_time = Some (now w), end_time = None, task_returncode = None,
                error = None\<rparr>;
          (t', w') =
            (case agents cfg ''spiderfoot'' of
               None \<Rightarrow>
                 (t\<lparr>end_time := Some (now w), status := FAILED,
                    error := Some (str (key_error ''spiderfoot''))\<rparr>, w)
             | Some agent_path \<Rightarrow>
                 (case execute_agent run PY agent_path [value] cfg env w of
                    (Inr cp, w1) \<Rightarrow>
                      (let t1 = t\<lparr>end_time := Some (now w1),
                                   task_returncode := Some (returncode cp),
                                   status := (if returncode cp = 0 then COMPLETED else FAILED)\<rparr>
                       in (if returncode cp \<noteq> 0
                           then t1\<lparr>error := Some (''exit '' @ str_int (returncode cp))\<rparr>
                           else t1, w1))
                  | (Inl e, w1) \<Rightarrow>
                      (t\<lparr>end_time := Some (now w1), status := FAILED,
                         error := Some (str e)\<rparr>, w1)))
      in (t', logger_info (''SpiderFoot task %s '' @ arrow @ '' %s'')
                [target t', status_value (status t')] w'))"

section \<open>The dispatcher\<close>

text \<open>\<^verbatim>\<open>dispatch_task\<close>, the closure of \<^verbatim>\<open>main\<close> over \<^verbatim>\<open>cfg\<close> and \<^verbatim>\<open>env\<close>.\<close>

definition dispatch_task ::
  "subprocess \<Rightarrow> string \<Rightarrow> Config \<Rightarrow> environ \<Rightarrow> string \<Rightarrow> string \<Rightarrow> world \<Rightarrow>
   TaskResult \<times> world" where
  "dispatch_task run PY cfg env kind value w =
     (if kind = ''username'' then run_username run PY value cfg (Some env) w
      else if kind \<in> {''domain'', ''email'', ''ip'', ''phone''}
      then run_spiderfoot run PY kind value cfg (Some env) w
      else
        (let tr = \<lparr>target = value, agent = ''unknown'', status = FAILED,
                    start_time = Some (now w), end_time = Some (now w),
                    task_returncode = None, error = Some (''unknown type '' @ kind)\<rparr>
         in (tr, logger_warning ''Unknown type '%s', skipping %s'' [kind, value] w)))"

text \<open>Sequential mode: the loop \<^verbatim>\<open>for kind, value in tasks\<close> of \<^verbatim>\<open>main\<close>.\<close>

fun run_sequential ::
  "subprocess \<Rightarrow> string \<Rightarrow> Config \<Rightarrow> environ \<Rightarrow> (string \<times> string) list \<Rightarrow>
   TaskResult list \<Rightarrow> world \<Rightarrow> TaskResult list \<times> world" where
  "run_sequential run PY cfg env [] results w = (results, w)"
| "run_sequential run PY cfg env ((kind, value) # rest) results w =
     (case dispatch_task run PY cfg env kind value w of
        (res, w1) \<Rightarrow> run_sequential run PY cfg env rest (results @ [res]) w1)"

subsection \<open>The worker pool\<close>

text \<open>
  The threads of a \<^verbatim>\<open>ThreadPoolExecutor\<close> share no variable of the program: \<^verbatim>\<open>cfg\<close> and
  \<^verbatim>\<open>env\<close> are only read. What the call submitted for the i-th task returns is
  therefore fixed by what its thread meets: the clock it reads and the processes it
  launches. The model leaves this free, so that it covers every interleaving of the
  threads and every size of pool: the i-th call runs from a world \<open>obs i\<close> of its own, and
  \<^verbatim>\<open>as_completed\<close> yields the futures by the rank \<open>finish i\<close> at which each is done, those
  of equal rank in the order of submission.

  A future holds the pair \<^verbatim>\<open>(k, v)\<close> that \<^verbatim>\<open>future_map\<close> keeps for it, what the call
  returned or raised, and the world its thread ended in with the one it began in.
\<close>

record future =
  key :: "string \<times> string"
  outcome_of :: "exn + TaskResult"
  began :: world
  ended :: world

definition submit ::
  "(string \<Rightarrow> string \<Rightarrow> world \<Rightarrow> (exn + TaskResult) \<times> world) \<Rightarrow> string \<Rightarrow> string \<Rightarrow> world \<Rightarrow>
   future" where
  "submit fn k v w0 =
     (case fn k v w0 of
        (r, w1) \<Rightarrow> \<lparr>key = (k, v), outcome_of = r, began = w0, ended = w1\<rparr>)"

definition as_completed :: "(nat \<Rightarrow> nat) \<Rightarrow> future list \<Rightarrow> future list" where
  "as_completed finish futs =
     map (\<lambda>i. futs ! i) (sort_key finish [0..<length futs])"

text \<open>
  \<^verbatim>\<open>fut.result()\<close> returns once the thread is done: the main thread's clock is then no
  earlier than the thread's, and what the thread did has happened.
\<close>

definition joined :: "world \<Rightarrow> future \<Rightarrow> world" where
  "joined w fut =
     w\<lparr>clock := max (clock w) (clock (ended fut)),
       trace := trace w @ events_since (began fut) (ended fut)\<rparr>"

text \<open>The body of \<^verbatim>\<open>for fut in as_completed(future_map)\<close>.\<close>

fun collect :: "future list \<Rightarrow> TaskResult list \<Rightarrow> world \<Rightarrow> TaskResult list \<times> world" where
  "collect [] results w = (results, w)"
| "collect (fut # futs) results w =
     (let w1 = joined w fut
      in case outcome_of fut of
           Inr res \<Rightarrow> collect futs (results @ [res]) w1
         | Inl e \<Rightarrow>
             (case key fut of
                (k, v) \<Rightarrow>
                  (let w2 = logger_exception ''Task %s:%s raised'' [k, v] w1;
                       res = \<lparr>target = k @ '':'' @ v, agent = ''unknown'', status = FAILED,
                               start_time = Some (now w2), end_time = Some (now w2),
                               task_returncode = None, error = Some (str e)\<rparr>
                   in collect futs (results @ [res]) w2)))"

text \<open>
  The \<^verbatim>\<open>with ThreadPoolExecutor(max_workers=...) as ex\<close> block, for any submitted
  function. The constructor raises \<^verbatim>\<open>ValueError\<close> when \<^verbatim>\<open>max_workers\<close> is not positive.
\<close>

definition run_pool ::
  "(string \<Rightarrow> string \<Rightarrow> world \<Rightarrow> (exn + TaskResult) \<times> world) \<Rightarrow> int \<Rightarrow>
   (string \<times> string) list \<Rightarrow> (nat \<Rightarrow> world) \<Rightarrow> (nat \<Rightarrow> nat) \<Rightarrow> TaskResult list \<Rightarrow> world \<Rightarrow>
   (exn + TaskResult list) \<times> world" where
  "run_pool fn max_workers tasks obs finish results w =
     (if max_workers \<le> 0
      then (Inl (Exn ValueError ''max_workers must be greater than 0''), w)
      else
        (let future_map = map (\<lambda>(i, (k, v)). submit fn k v (obs i)) (enumerate 0 tasks)
         in case collect (as_completed finish future_map) results w of
              (results', w') \<Rightarrow> (Inr results', w')))"

text \<open>
  From \<^verbatim>\<open>results = []\<close> to the end of the two modes, in \<^verbatim>\<open>main\<close>. A fault that nothing
  catches ends \<^verbatim>\<open>main\<close>: the value is then \<open>Inl\<close>.
\<close>

definition dispatch ::
  "subprocess \<Rightarrow> string \<Rightarrow> Config \<Rightarrow> environ \<Rightarrow> (string \<times> string) list \<Rightarrow> (nat \<Rightarrow> world) \<Rightarrow>
   (nat \<Rightarrow> nat) \<Rightarrow> world \<Rightarrow> (exn + TaskResult list) \<times> world" where
  "dispatch run PY cfg env tasks obs finish w =
     (if parallel cfg \<and> tasks \<noteq> []
      then
        run_pool (\<lambda>k v w0. case dispatch_task run PY cfg env k v w0 of (res, w1) \<Rightarrow> (Inr res, w1))
          (worker_count cfg) tasks obs finish []
          (logger_info ''Running tasks in parallel with %d workers''
             [str_int (worker_count cfg)] w)
      else
        (case run_sequential run PY cfg env tasks [] w of
           (results, w') \<Rightarrow> (Inr results, w')))"

section \<open>The driver\<close>

text \<open>\<^verbatim>\<open>main\<close> from \<^verbatim>\<open># Build summary\<close> to the \<^verbatim>\<open>except\<close> clause.\<close>

definition build_summary :: "subprocess \<Rightarrow> string \<Rightarrow> Config \<Rightarrow> environ \<Rightarrow> world \<Rightarrow> world" where
  "build_summary run PY cfg env w =
     (let w0 = logger_info (''Building summary'' @ ellipsis) [] w
      in case agents cfg ''summary'' of
           None \<Rightarrow>
             logger_exception ''Summary generation failed: %s''
               [str (key_error ''summary'')] w0
         | Some agent_path \<Rightarrow>
             (case execute_agent run PY agent_path [] cfg (Some env) w0 of
                (Inr cp, w1) \<Rightarrow>
                  (let w2 = (if stdout cp \<noteq> [] then logger_info (strip (stdout cp)) [] w1
                             else w1)
                   in if stderr cp \<noteq> [] then logger_warning (strip (stderr cp)) [] w2 else w2)
              | (Inl e, w1) \<Rightarrow>
                  logger_exception ''Summary generation failed: %s'' [str e] w1))"

text \<open>\<^verbatim>\<open>main\<close> from \<^verbatim>\<open># Final status\<close> to its end.\<close>

definition final_status :: "Config \<Rightarrow> string \<Rightarrow> TaskResult list \<Rightarrow> world \<Rightarrow> world" where
  "final_status cfg report_name results w =
     (let success_count = length (filter (\<lambda>r. status r = COMPLETED) results);
          w1 = logger_info ''Investigation complete: %d/%d tasks successful''
                 [str_nat success_count, str_nat (length results)] w
      in logger_info ''Report: %s'' [path_join (report_dir cfg) report_name] w1)"

text \<open>
  \<^verbatim>\<open>main\<close> from \<^verbatim>\<open># Prepare tasks\<close> on, once the targets are read and the report is
  named.
\<close>

definition main ::
  "subprocess \<Rightarrow> string \<Rightarrow> Config \<Rightarrow> environ \<Rightarrow> string \<Rightarrow> (string \<times> string) list \<Rightarrow>
   (nat \<Rightarrow> world) \<Rightarrow> (nat \<Rightarrow> nat) \<Rightarrow> world \<Rightarrow> (exn + unit) \<times> world" where
  "main run PY cfg env report_name targets obs finish w =
     (let tasks = map (\<lambda>(kind, value). (kind, value)) targets
      in case dispatch run PY cfg env tasks obs finish w of
           (Inl e, w1) \<Rightarrow> (Inl e, w1)
         | (Inr results, w1) \<Rightarrow>
             (Inr (), final_status cfg report_name results (build_summary run PY cfg env w1)))"

section \<open>The tool invoker of the agents\<close>



section \<open>The classifier's rules in plain terms\<close>

text \<open>
  What the two patterns accept, said without regular expressions: an address is one or
  more characters, an at sign, one or more characters, a dot, one or more characters,
  none of them a newline; a phone number is an optional plus sign, a digit, and six or
  more characters that are digits, whitespace, parentheses, dots or hyphens.
\<close>

definition email_shape :: "string \<Rightarrow> bool" where
  "email_shape s =
     (\<exists>a b c. a \<noteq> [] \<and> b \<noteq> [] \<and> c \<noteq> [] \<and> s = a @ ''@'' @ b @ ''.'' @ c \<and> newline \<notin> set s)"

definition phone_char :: "char \<Rightarrow> bool" where
  "phone_char c =
     (isdecimal c \<or> isspace c \<or> c = CHR ''('' \<or> c = CHR '')'' \<or> c = CHR ''.'' \<or> c = CHR ''-'')"

definition phone_shape :: "string \<Rightarrow> bool" where
  "phone_shape s =
     (\<exists>p d rest. s = p @ d # rest \<and> (p = [] \<or> p = ''+'') \<and> isdecimal d \<and>
        6 \<le> length rest \<and> (\<forall>c \<in> set rest. phone_char c))"

text \<open>
  The classifier as the specification words it: the parts of an address are free of
  whitespace, and a domain holds a dot and no whitespace. The specification leaves
  ``phone-like'' open; the pattern of the source is taken for it.
\<close>

definition spec_email_like :: "string \<Rightarrow> bool" where
  "spec_email_like s =
     (\<exists>a b c. a \<noteq> [] \<and> b \<noteq> [] \<and> c \<noteq> [] \<and> s = a @ ''@'' @ b @ ''.'' @ c \<and>
        (\<forall>x \<in> set s. \<not> isspace x))"

definition classify_spec :: "string \<Rightarrow> string" where
  "classify_spec raw =
     (let s = strip raw in
      if spec_email_like s then ''email''
      else if phone_shape s then ''phone''
      else if CHR ''.'' \<in> set s \<and> (\<forall>c \<in> set s. \<not> isspace c) then ''domain''
      else ''username'')"

section \<open>Notions used to state the properties\<close>

text \<open>A later world extends an earlier one: the trace has only grown.\<close>

definition extends :: "world \<Rightarrow> world \<Rightarrow> bool" where
  "extends w w' = (\<exists>es. trace w' = trace w @ es)"

text \<open>The surroundings are steady when no run of a process sets the clock back.\<close>

definition steady :: "subprocess \<Rightarrow> bool" where
  "steady run = (\<forall>w args env timeout. 0 \<le> snd (run w args env timeout))"

text \<open>
  The actions that the retry policy is specified to leave behind when its attempts raise
  the faults \<open>excs\<close> in turn: a launch per fault, and between two launches a sleep that
  doubles, from \<open>2 ^ k\<close> on; no sleep after the last launch.
\<close>

fun backoff_trace :: "string list \<Rightarrow> nat \<Rightarrow> exn list \<Rightarrow> event list" where
  "backoff_trace cmd k [] = []"
| "backoff_trace cmd k [e] = [Launch cmd (Inl e)]"
| "backoff_trace cmd k (e # e' # es) =
     Launch cmd (Inl e) # Sleep (2 ^ k) # backoff_trace cmd (Suc k) (e' # es)"

text \<open>
  What the \<^verbatim>\<open>try\<close> statement of \<^verbatim>\<open>run_username\<close> and \<^verbatim>\<open>run_spiderfoot\<close> makes of the
  task record, given what the retry policy returned or raised and the time read then.
\<close>

definition settle :: "TaskResult \<Rightarrow> outcome \<Rightarrow> int \<Rightarrow> TaskResult" where
  "settle t r at =
     (case r of
        Inr cp \<Rightarrow>
          t\<lparr>end_time := Some at, task_returncode := Some (returncode cp),
            status := (if returncode cp = 0 then COMPLETED else FAILED),
            error := (if returncode cp = 0 then None
                      else Some (''exit '' @ str_int (returncode cp)))\<rparr>
      | Inl e \<Rightarrow> t\<lparr>end_time := Some at, status := FAILED, error := Some (str e)\<rparr>)"

text \<open>
  A result is well formed when its status is final and its two times are set, and in
  order when the clock is known not to have gone back.
\<close>

definition well_formed :: "bool \<Rightarrow> TaskResult \<Rightarrow> bool" where
  "well_formed forward t =
     ((status t = COMPLETED \<or> status t = FAILED) \<and>
      (\<exists>s e. start_time t = Some s \<and> end_time t = Some e \<and> (forward \<longrightarrow> s \<le> e)))"

text \<open>What the collecting loop appends for a future, given the time it reads.\<close>

definition yielded :: "future \<Rightarrow> int \<Rightarrow> TaskResult" where
  "yielded fut at =
     (case outcome_of fut of
        Inr res \<Rightarrow> res
      | Inl e \<Rightarrow>
          \<lparr>target = fst (key fut) @ '':'' @ snd (key fut), agent = ''unknown'', status = FAILED,
            start_time = Some at, end_time = Some at, task_returncode = None,
            error = Some (str e)\<rparr>)"

section \<open>Example runs\<close>

text \<open>
  A configuration as \<^verbatim>\<open>Config.load\<close> builds it, four kinds of surroundings (every launch
  fails to start; every process exits with a given code; the clock is put back an hour
  while a process runs; every launch times out), and a worker that raises on one of its
  tasks.
\<close>

definition demo_cfg :: Config where
  "demo_cfg =
     \<lparr>case_dir = ''/case'', report_dir = ''/repo/reports'',
      agents = [''username'' \<mapsto> ''/repo/agents/username_agent.py'',
                ''spiderfoot'' \<mapsto> ''/repo/agents/spiderfoot_agent.py'',
                ''summary'' \<mapsto> ''/repo/agents/summary_agent.py''],
      max_retries = 3, parallel = False, worker_count = 4\<rparr>"

definition always_raises :: subprocess where
  "always_raises w args env timeout = (Inl (Exn OtherException ''No such file''), 1)"

definition always_exits :: "int \<Rightarrow> subprocess" where
  "always_exits code w args env timeout =
     (Inr \<lparr>returncode = code, stdout = [], stderr = []\<rparr>, 2)"


definition times_out :: subprocess where
  "times_out w args env timeout = (Inl (Exn TimeoutExpired ''timed out''), 900)"

definition start :: world where
  "start = \<lparr>clock = 0, trace = []\<rparr>"

definition demo_obs :: "nat \<Rightarrow> world" where
  "demo_obs i = \<lparr>clock = 10 * int i, trace = []\<rparr>"

definition demo_finish :: "nat \<Rightarrow> nat" where
  "demo_finish i = 10 - i"



definition demo_targets :: "(string \<times> string) list" where
  "demo_targets = [(''email'', ''a@b.com''), (''username'', ''alice''), (''carrier-pigeon'', ''x'')]"

definition faulty_worker :: "string \<Rightarrow> string \<Rightarrow> world \<Rightarrow> (exn + TaskResult) \<times> world" where
  "faulty_worker k v w =
     (if v = ''bad'' then (Inl (Exn OtherException ''boom''), w)
      else (Inr \<lparr>target = v, agent = k, status = COMPLETED, start_time = Some (clock w),
                 end_time = Some (clock w), task_returncode = Some 0, error = None\<rparr>, w))"

definition demo_tasks :: "(string \<times> string) list" where
  "demo_tasks = [(''username'', ''alice''), (''username'', ''bad''), (''domain'', ''example.com'')]"

section \<open>Stripping\<close>

lemma rstrip_prefix: "\<exists>t. v = rstrip v @ t"
proof -
  have "rev v = takeWhile isspace (rev v) @ dropWhile isspace (rev v)" by simp
  then have "rev (rev v) = rev (takeWhile isspace (rev v) @ dropWhile isspace (rev v))" by simp
  then have "v = rev (dropWhile isspace (rev v)) @ rev (takeWhile isspace (rev v))"
    by (simp only: rev_rev_ident rev_append)
  then show ?thesis unfolding rstrip_def by blast
qed

lemma lstrip_rstrip_lstrip: "lstrip (rstrip (lstrip v)) = rstrip (lstrip v)"
proof (cases "rstrip (lstrip v)")
  case Nil
  then show ?thesis by (simp add: lstrip_def)
next
  case (Cons c cs)
  obtain t where t: "lstrip v = rstrip (lstrip v) @ t" using rstrip_prefix by blast
  then have "lstrip v = c # (cs @ t)" using Cons by simp
  then have "\<not> isspace c" unfolding lstrip_def
    by (metis hd_dropWhile list.distinct(1) list.sel(1))
  then show ?thesis using Cons by (simp add: lstrip_def)
qed

lemma rstrip_idem: "rstrip (rstrip v) = rstrip v"
  by (simp add: rstrip_def)

lemma strip_idem: "strip (strip v) = strip v"
  by (simp add: strip_def lstrip_rstrip_lstrip rstrip_idem)


lemma lstrip_padding: "\<forall>c \<in> set a. isspace c \<Longrightarrow> lstrip (a @ s) = lstrip s"
  by (simp add: lstrip_def)

lemma rstrip_padding:
  assumes "\<forall>c \<in> set b. isspace c"
  shows "rstrip (s @ b) = rstrip s"
proof -
  have "dropWhile isspace (rev b @ rev s) = dropWhile isspace (rev s)"
    using assms by (intro dropWhile_append2) simp
  then show ?thesis by (simp add: rstrip_def)
qed

lemma strip_padding:
  assumes "\<forall>c \<in> set a. isspace c" "\<forall>c \<in> set b. isspace c"
  shows "strip (a @ s @ b) = strip s"
proof -
  have 1: "strip (a @ s @ b) = rstrip (lstrip (s @ b))"
    using assms(1) by (simp add: strip_def lstrip_padding)
  show ?thesis
  proof (cases "\<forall>c \<in> set s. isspace c")
    case True
    then have "lstrip (s @ b) = []" "lstrip s = []"
      using assms(2) by (simp_all add: lstrip_def)
    then show ?thesis using 1 by (simp add: strip_def)
  next
    case False
    then obtain c where "c \<in> set s" "\<not> isspace c" by blast
    then have "lstrip (s @ b) = lstrip s @ b"
      unfolding lstrip_def by (rule dropWhile_append1)
    then show ?thesis using 1 assms(2) by (simp add: strip_def rstrip_padding)
  qed
qed

text \<open>
  C10: the classifier does not see leading and trailing whitespace. Whitespace put before
  and after an input does not change its kind, and an input and the same input stripped
  get the same kind.
\<close>

theorem guess_kind_padding:
  assumes "\<forall>c \<in> set a. isspace c" "\<forall>c \<in> set b. isspace c"
  shows "guess_kind (a @ s @ b) = guess_kind s \<and> guess_kind (strip s) = guess_kind s"
  using strip_padding [OF assms, of s] by (simp add: guess_kind_def strip_idem)

text \<open>A domain name between two spaces and a tab with a newline.\<close>

theorem guess_kind_padding_witness:
  "isspace CHR '' '' \<and> isspace (CHR 0x09) \<and> isspace (CHR 0x0A) \<and>
   guess_kind (''  '' @ ''example.com'' @ [CHR 0x09, CHR 0x0A]) = guess_kind ''example.com'' \<and>
   guess_kind ''example.com'' = ''domain''"
proof -
  have sp: "isspace CHR '' ''" "isspace (CHR 0x09)" "isspace (CHR 0x0A)"
    by (simp_all add: isspace_def)
  have a: "\<forall>c \<in> set ''  ''. isspace c" and b: "\<forall>c \<in> set [CHR 0x09, CHR 0x0A]. isspace c"
    using sp by simp_all
  have d: "guess_kind ''example.com'' = ''domain''" by code_simp
  from guess_kind_padding [OF a b, of "''example.com''"] sp d show ?thesis by simp
qed

section \<open>What the patterns accept\<close>

lemma mem_one_char: "s' \<in> set (one_char P s) \<longleftrightarrow> (\<exists>c. s = c # s' \<and> P c)"
  by (auto simp: one_char_def split: list.splits)

lemma mem_ends_Seq:
  "s' \<in> set (ends (Seq r1 r2) s) \<longleftrightarrow> (\<exists>m. m \<in> set (ends r1 s) \<and> s' \<in> set (ends r2 m))"
  by auto

lemma ends_Star_one_Nil:
  assumes "\<And>s. ends r s = one_char P s"
  shows "ends (Star r) [] = [[]]"
  by (subst ends.simps(6)) (simp add: assms one_char_def)

lemma ends_Star_one_Cons:
  assumes "\<And>s. ends r s = one_char P s"
  shows "ends (Star r) (c # cs) = (if P c then ends (Star r) cs else []) @ [c # cs]"
  by (subst ends.simps(6)) (simp add: assms one_char_def)

lemma mem_ends_Star_one:
  assumes "\<And>s. ends r s = one_char P s"
  shows "s' \<in> set (ends (Star r) s) \<longleftrightarrow> (\<exists>p. s = p @ s' \<and> (\<forall>c \<in> set p. P c))"
proof (induction s)
  case Nil
  show ?case by (simp add: ends_Star_one_Nil [OF assms])
next
  case (Cons c cs)
  show ?case
  proof
    assume "s' \<in> set (ends (Star r) (c # cs))"
    then consider "P c" "s' \<in> set (ends (Star r) cs)" | "s' = c # cs"
      by (auto simp: ends_Star_one_Cons [OF assms] split: if_splits)
    then show "\<exists>p. c # cs = p @ s' \<and> (\<forall>c \<in> set p. P c)"
    proof cases
      case 1
      then obtain p where "cs = p @ s'" "\<forall>c \<in> set p. P c" using Cons.IH by blast
      then have "c # cs = (c # p) @ s' \<and> (\<forall>x \<in> set (c # p). P x)" using 1 by simp
      then show ?thesis by blast
    next
      case 2
      then have "c # cs = [] @ s' \<and> (\<forall>x \<in> set []. P x)" by simp
      then show ?thesis by blast
    qed
  next
    assume "\<exists>p. c # cs = p @ s' \<and> (\<forall>c \<in> set p. P c)"
    then obtain p where p: "c # cs = p @ s'" "\<forall>c \<in> set p. P c" by blast
    show "s' \<in> set (ends (Star r) (c # cs))"
    proof (cases p)
      case Nil
      then have "s' = c # cs" using p by simp
      then show ?thesis by (simp add: ends_Star_one_Cons [OF assms])
    next
      case (Cons x q)
      then have "x = c" "cs = q @ s'" "P c" "\<forall>c \<in> set q. P c" using p by auto
      then have "s' \<in> set (ends (Star r) cs)" using Cons.IH by blast
      then show ?thesis using \<open>P c\<close> by (simp add: ends_Star_one_Cons [OF assms])
    qed
  qed
qed

lemma mem_ends_one_or_more:
  assumes "\<And>s. ends r s = one_char P s"
  shows "s' \<in> set (ends (one_or_more r) s) \<longleftrightarrow>
         (\<exists>p. p \<noteq> [] \<and> s = p @ s' \<and> (\<forall>c \<in> set p. P c))"
proof
  assume "s' \<in> set (ends (one_or_more r) s)"
  then obtain m where m: "m \<in> set (ends r s)" "s' \<in> set (ends (Star r) m)"
    unfolding one_or_more_def mem_ends_Seq by blast
  from m(1) obtain c where c: "s = c # m" "P c" by (auto simp: assms mem_one_char)
  from m(2) obtain q where q: "m = q @ s'" "\<forall>c \<in> set q. P c"
    using mem_ends_Star_one [OF assms] by blast
  have "c # q \<noteq> [] \<and> s = (c # q) @ s' \<and> (\<forall>x \<in> set (c # q). P x)"
    using c q by simp
  then show "\<exists>p. p \<noteq> [] \<and> s = p @ s' \<and> (\<forall>c \<in> set p. P c)" by blast
next
  assume "\<exists>p. p \<noteq> [] \<and> s = p @ s' \<and> (\<forall>c \<in> set p. P c)"
  then obtain c q where p: "s = (c # q) @ s'" "\<forall>x \<in> set (c # q). P x"
    by (metis list.exhaust)
  then have "q @ s' \<in> set (ends r s)" by (simp add: assms mem_one_char)
  moreover have "s' \<in> set (ends (Star r) (q @ s'))"
    using p(2) mem_ends_Star_one [OF assms, of s' "q @ s'"] by auto
  ultimately show "s' \<in> set (ends (one_or_more r) s)"
    unfolding one_or_more_def mem_ends_Seq by blast
qed

lemma mem_ends_at_least_one:
  assumes "\<And>s. ends r s = one_char P s"
  shows "s' \<in> set (ends (at_least n r) s) \<longleftrightarrow>
         (\<exists>p. n \<le> length p \<and> s = p @ s' \<and> (\<forall>c \<in> set p. P c))"
proof (induction n arbitrary: s)
  case 0
  show ?case by (simp add: mem_ends_Star_one [OF assms])
next
  case (Suc n)
  show ?case
  proof
    assume "s' \<in> set (ends (at_least (Suc n) r) s)"
    then obtain m where m: "m \<in> set (ends r s)" "s' \<in> set (ends (at_least n r) m)"
      by auto
    from m(1) obtain c where c: "s = c # m" "P c" by (auto simp: assms mem_one_char)
    from m(2) obtain q where q: "n \<le> length q" "m = q @ s'" "\<forall>c \<in> set q. P c"
      using Suc.IH by blast
    have "Suc n \<le> length (c # q) \<and> s = (c # q) @ s' \<and> (\<forall>x \<in> set (c # q). P x)"
      using c q by simp
    then show "\<exists>p. Suc n \<le> length p \<and> s = p @ s' \<and> (\<forall>c \<in> set p. P c)" by blast
  next
    assume "\<exists>p. Suc n \<le> length p \<and> s = p @ s' \<and> (\<forall>c \<in> set p. P c)"
    then obtain p where p: "Suc n \<le> length p" "s = p @ s'" "\<forall>c \<in> set p. P c" by blast
    then obtain c q where cq: "p = c # q" by (cases p) auto
    then have "q @ s' \<in> set (ends r s)" using p by (simp add: assms mem_one_char)
    moreover have "s' \<in> set (ends (at_least n r) (q @ s'))"
      using p cq Suc.IH [of "q @ s'"] by auto
    ultimately show "s' \<in> set (ends (at_least (Suc n) r) s)" by auto
  qed
qed


lemma mem_ends_one_or_more_Dot:
  "s' \<in> set (ends (one_or_more Dot) s) \<longleftrightarrow> (\<exists>p. p \<noteq> [] \<and> s = p @ s' \<and> newline \<notin> set p)"
  using mem_ends_one_or_more [of Dot "\<lambda>c. c \<noteq> newline" s' s] by auto

lemma mem_ends_Chr:
  "s' \<in> set (ends (Atom (Chr a)) s) \<longleftrightarrow> s = a # s'"
  by (auto simp: mem_one_char)

lemma fullmatch_email_re: "fullmatch email_re s \<longleftrightarrow> email_shape s"
proof
  assume "fullmatch email_re s"
  then obtain m1 m2 m3 m4 where m:
    "m1 \<in> set (ends (one_or_more Dot) s)" "m2 \<in> set (ends (Atom (Chr CHR ''@'')) m1)"
    "m3 \<in> set (ends (one_or_more Dot) m2)" "m4 \<in> set (ends (Atom (Chr CHR ''.'')) m3)"
    "[] \<in> set (ends (one_or_more Dot) m4)"
    unfolding fullmatch_def email_re_def mem_ends_Seq by blast
  from m(1) obtain a where a: "a \<noteq> []" "s = a @ m1" "newline \<notin> set a"
    unfolding mem_ends_one_or_more_Dot by blast
  from m(2) have m1: "m1 = CHR ''@'' # m2" unfolding mem_ends_Chr .
  from m(3) obtain b where b: "b \<noteq> []" "m2 = b @ m3" "newline \<notin> set b"
    unfolding mem_ends_one_or_more_Dot by blast
  from m(4) have m3: "m3 = CHR ''.'' # m4" unfolding mem_ends_Chr .
  from m(5) have c: "m4 \<noteq> []" "newline \<notin> set m4"
    unfolding mem_ends_one_or_more_Dot by auto
  have "s = a @ ''@'' @ b @ ''.'' @ m4" using a b m1 m3 by simp
  moreover from this have "newline \<notin> set s" using a b c by (simp add: newline_def)
  ultimately show "email_shape s" unfolding email_shape_def using a(1) b(1) c(1) by blast
next
  assume "email_shape s"
  then obtain a b c where s: "a \<noteq> []" "b \<noteq> []" "c \<noteq> []" "s = a @ ''@'' @ b @ ''.'' @ c"
    "newline \<notin> set s" unfolding email_shape_def by blast
  have 1: "''@'' @ b @ ''.'' @ c \<in> set (ends (one_or_more Dot) s)"
    unfolding mem_ends_one_or_more_Dot using s by auto
  have 2: "b @ ''.'' @ c \<in> set (ends (Atom (Chr CHR ''@'')) (''@'' @ b @ ''.'' @ c))"
    unfolding mem_ends_Chr by simp
  have 3: "''.'' @ c \<in> set (ends (one_or_more Dot) (b @ ''.'' @ c))"
    unfolding mem_ends_one_or_more_Dot using s by auto
  have 4: "c \<in> set (ends (Atom (Chr CHR ''.'')) (''.'' @ c))"
    unfolding mem_ends_Chr by simp
  have 5: "[] \<in> set (ends (one_or_more Dot) c)"
    unfolding mem_ends_one_or_more_Dot using s by auto
  show "fullmatch email_re s"
    unfolding fullmatch_def email_re_def mem_ends_Seq using 1 2 3 4 5 by blast
qed

lemma mem_ends_Opt: "s' \<in> set (ends (Opt r) s) \<longleftrightarrow> s' \<in> set (ends r s) \<or> s' = s"
  by auto

lemma mem_ends_Dollar_Nil: "[] \<in> set (ends Dollar s) \<longleftrightarrow> s = []"
  by auto

lemma mem_ends_phone_class:
  "s' \<in> set (ends (at_least n (Class [Digit, Space, Chr CHR ''('', Chr CHR '')'', Chr CHR ''.'',
      Chr CHR ''-''])) s) \<longleftrightarrow>
   (\<exists>p. n \<le> length p \<and> s = p @ s' \<and> (\<forall>c \<in> set p. phone_char c))"
proof -
  have "ends (Class [Digit, Space, Chr CHR ''('', Chr CHR '')'', Chr CHR ''.'', Chr CHR ''-'']) s
        = one_char phone_char s" for s
  proof -
    have "(\<lambda>c. \<exists>a \<in> set [Digit, Space, Chr CHR ''('', Chr CHR '')'', Chr CHR ''.'',
             Chr CHR ''-'']. atom_matches a c) = phone_char"
      by (auto simp: phone_char_def fun_eq_iff)
    then show ?thesis by (simp only: ends.simps)
  qed
  then show ?thesis by (rule mem_ends_at_least_one)
qed

lemma fullmatch_phone_re: "fullmatch phone_re s \<longleftrightarrow> phone_shape s"
proof
  assume "fullmatch phone_re s"
  then obtain m1 m2 m3 where m:
    "m1 \<in> set (ends (Opt (Atom (Chr CHR ''+''))) s)" "m2 \<in> set (ends (Atom Digit) m1)"
    "m3 \<in> set (ends (at_least 6 (Class [Digit, Space, Chr CHR ''('', Chr CHR '')'',
       Chr CHR ''.'', Chr CHR ''-''])) m2)"
    "[] \<in> set (ends Dollar m3)"
    unfolding fullmatch_def phone_re_def mem_ends_Seq by blast
  from m(1) have p: "s = ''+'' @ m1 \<or> s = [] @ m1"
    unfolding mem_ends_Opt mem_ends_Chr by auto
  from m(2) obtain d where d: "m1 = d # m2" "isdecimal d"
    by (auto simp: mem_one_char)
  from m(4) have "m3 = []" unfolding mem_ends_Dollar_Nil .
  with m(3) have r: "6 \<le> length m2" "\<forall>c \<in> set m2. phone_char c"
    unfolding mem_ends_phone_class by auto
  from p d r show "phone_shape s" unfolding phone_shape_def by blast
next
  assume "phone_shape s"
  then obtain p d rest where s: "s = p @ d # rest" "p = [] \<or> p = ''+''" "isdecimal d"
    "6 \<le> length rest" "\<forall>c \<in> set rest. phone_char c"
    unfolding phone_shape_def by blast
  have 1: "d # rest \<in> set (ends (Opt (Atom (Chr CHR ''+''))) s)"
    unfolding mem_ends_Opt mem_ends_Chr using s(1,2) by auto
  have 2: "rest \<in> set (ends (Atom Digit) (d # rest))"
    using s(3) by (simp add: mem_one_char)
  have 3: "[] \<in> set (ends (at_least 6 (Class [Digit, Space, Chr CHR ''('', Chr CHR '')'',
       Chr CHR ''.'', Chr CHR ''-''])) rest)"
    unfolding mem_ends_phone_class using s(4,5) by auto
  have 4: "[] \<in> set (ends Dollar [])" by simp
  show "fullmatch phone_re s"
    unfolding fullmatch_def phone_re_def mem_ends_Seq using 1 2 3 4 by blast
qed


text \<open>
  C6, as the code has it: after stripping, the rules apply in order and the first that
  holds decides. An input of the shape of an address (its parts may hold any characters
  but a newline, spaces too) is \<open>email\<close>; else one of the shape of a phone number is
  \<open>phone\<close>; else one with a dot and no space character U+0020 is \<open>domain\<close>; all others
  are \<open>username\<close>. The function is total and its value is one of these four kinds.
\<close>

theorem guess_kind_rules:
  "guess_kind v =
     (if email_shape (strip v) then ''email''
      else if phone_shape (strip v) then ''phone''
      else if CHR ''.'' \<in> set (strip v) \<and> CHR '' '' \<notin> set (strip v) then ''domain''
      else ''username'')
   \<and> guess_kind v \<in> {''email'', ''phone'', ''domain'', ''username''}"
  by (simp add: guess_kind_def Let_def fullmatch_email_re fullmatch_phone_re)

theorem guess_kind_rules_witness:
  "\<not> email_shape (strip ''  +1 555 123 4567 '') \<and> phone_shape (strip ''  +1 555 123 4567 '')
   \<and> guess_kind ''  +1 555 123 4567 '' = ''phone''"
proof -
  have 1: "\<not> fullmatch email_re (strip ''  +1 555 123 4567 '')" by code_simp
  have 2: "fullmatch phone_re (strip ''  +1 555 123 4567 '')" by code_simp
  from 1 2 guess_kind_rules [of "''  +1 555 123 4567 ''"] show ?thesis
    by (simp add: fullmatch_email_re fullmatch_phone_re)
qed

text \<open>
  C6 as the specification words it fails on two inputs. The first has a space inside what
  stands before the at sign: it is no address in the specification's sense and holds
  whitespace, so that the specification makes it a \<open>username\<close>, and the code an \<open>email\<close>.
  The second holds a dot and a tab but no space: a \<open>username\<close> for the specification, a
  \<open>domain\<close> for the code.
\<close>

theorem guess_kind_spec_counterexample:
  "guess_kind ''a b@c.d'' = ''email'' \<and> classify_spec ''a b@c.d'' = ''username'' \<and>
   guess_kind (''a.b'' @ [CHR 0x09] @ ''c'') = ''domain'' \<and>
   classify_spec (''a.b'' @ [CHR 0x09] @ ''c'') = ''username''"
proof -
  have g1: "guess_kind ''a b@c.d'' = ''email''" by code_simp
  have g2: "guess_kind (''a.b'' @ [CHR 0x09] @ ''c'') = ''domain''" by code_simp
  have s1: "strip ''a b@c.d'' = ''a b@c.d''" by code_simp
  have s2: "strip (''a.b'' @ [CHR 0x09] @ ''c'') = ''a.b'' @ [CHR 0x09] @ ''c''" by code_simp
  have sp1: "isspace CHR '' ''" by code_simp
  have sp2: "isspace (CHR 0x09)" by code_simp
  have e1: "\<not> spec_email_like ''a b@c.d''"
    unfolding spec_email_like_def using sp1 by auto
  have e2: "\<not> spec_email_like (''a.b'' @ [CHR 0x09] @ ''c'')"
    unfolding spec_email_like_def using sp2 by auto
  have p1: "\<not> fullmatch phone_re ''a b@c.d''" by code_simp
  have p2: "\<not> fullmatch phone_re (''a.b'' @ [CHR 0x09] @ ''c'')" by code_simp
  have c1: "classify_spec ''a b@c.d'' = ''username''"
    unfolding classify_spec_def s1 Let_def using e1 p1 sp1
    by (auto simp: fullmatch_phone_re)
  have c2: "classify_spec (''a.b'' @ [CHR 0x09] @ ''c'') = ''username''"
    unfolding classify_spec_def s2 Let_def using e2 p2 sp2
    by (auto simp: fullmatch_phone_re)
  from g1 g2 c1 c2 show ?thesis by blast
qed

section \<open>The world only grows\<close>

lemma extends_refl: "extends w w"
  by (simp add: extends_def)

lemma extends_trans: "extends w w1 \<Longrightarrow> extends w1 w2 \<Longrightarrow> extends w w2"
  by (auto simp: extends_def)

lemma extends_logger:
  "extends w (logger_info m a w)" "extends w (logger_warning m a w)"
  "extends w (logger_error m a w)" "extends w (logger_exception m a w)"
  by (simp_all add: extends_def logger_info_def logger_warning_def logger_error_def
      logger_exception_def)

lemma extends_sleep: "extends w (sleep d w)"
  by (simp add: extends_def sleep_def)

lemma extends_sh: "sh run args env t w = (out, w') \<Longrightarrow> extends w w'"
  by (auto simp: sh_def subprocess_run_def extends_def split: prod.splits)

lemma events_since_append: "trace w' = trace w @ es \<Longrightarrow> events_since w w' = es"
  by (simp add: events_since_def)

lemma actions_append:
  "trace w' = trace w @ es \<Longrightarrow> actions w w' = filter (\<lambda>e. \<not> is_Log e) es"
  by (simp add: actions_def events_since_append)

lemma actions_trans:
  assumes "extends w w1" "extends w1 w2"
  shows "actions w w2 = actions w w1 @ actions w1 w2"
proof -
  obtain es1 where 1: "trace w1 = trace w @ es1" using assms(1) by (auto simp: extends_def)
  obtain es2 where 2: "trace w2 = trace w1 @ es2" using assms(2) by (auto simp: extends_def)
  have "trace w2 = trace w @ (es1 @ es2)" using 1 2 by simp
  then have "actions w w2 = filter (\<lambda>e. \<not> is_Log e) (es1 @ es2)" by (rule actions_append)
  then show ?thesis using actions_append [OF 1] actions_append [OF 2] by simp
qed

lemma actions_refl: "actions w w = []"
  by (simp add: actions_def events_since_def)

lemma actions_logger:
  "actions w (logger_info m a w) = []" "actions w (logger_warning m a w) = []"
  "actions w (logger_error m a w) = []" "actions w (logger_exception m a w) = []"
  by (simp_all add: actions_def events_since_def logger_info_def logger_warning_def
      logger_error_def logger_exception_def)

lemma actions_sleep: "actions w (sleep d w) = [Sleep d]"
  by (simp add: actions_def events_since_def sleep_def)

lemma actions_sh: "sh run args env t w = (out, w') \<Longrightarrow> actions w w' = [Launch args out]"
  by (auto simp: sh_def subprocess_run_def actions_def events_since_def split: prod.splits)

text \<open>One turn of the loop.\<close>

lemma attempts_returns:
  assumes "sh run (PY # p # args) env None
             (logger_info ''Running %s %s (attempt %d/%d)''
                [path_name p, join '' '' args, str_int a, str_int (max_retries cfg)] w)
           = (Inr cp, w2)"
    and "attempts run PY p args cfg env (a # rest) last_exc w = (r, w')"
  shows "r = Inr cp \<and> extends w w' \<and> actions w w' = [Launch (PY # p # args) (Inr cp)]"
proof -
  let ?w1 = "logger_info ''Running %s %s (attempt %d/%d)''
                [path_name p, join '' '' args, str_int a, str_int (max_retries cfg)] w"
  let ?w3 = "if stdout cp \<noteq> []
             then logger_info ''[%s stdout] %s'' [path_stem p, strip (stdout cp)] w2 else w2"
  let ?w4 = "if stderr cp \<noteq> []
             then logger_warning ''[%s stderr] %s'' [path_stem p, strip (stderr cp)] ?w3 else ?w3"
  have r: "r = Inr cp" and w': "w' = ?w4" using assms by (simp_all add: Let_def)
  have e1: "extends w ?w1" by (rule extends_logger)
  have e2: "extends ?w1 w2" using assms(1) by (rule extends_sh)
  have e3: "extends w2 ?w3" by (simp add: extends_logger extends_refl)
  have e4: "extends ?w3 ?w4" by (simp add: extends_logger extends_refl)
  have a1: "actions w ?w1 = []" by (rule actions_logger)
  have a2: "actions ?w1 w2 = [Launch (PY # p # args) (Inr cp)]" using assms(1) by (rule actions_sh)
  have a3: "actions w2 ?w3 = []" by (simp add: actions_logger actions_refl)
  have a4: "actions ?w3 ?w4 = []" by (simp add: actions_logger actions_refl)
  have e12: "extends w w2" using e1 e2 by (rule extends_trans)
  have e13: "extends w ?w3" using e12 e3 by (rule extends_trans)
  have e14: "extends w ?w4" using e13 e4 by (rule extends_trans)
  have "actions w w2 = [Launch (PY # p # args) (Inr cp)]"
    using actions_trans [OF e1 e2] a1 a2 by simp
  then have "actions w ?w3 = [Launch (PY # p # args) (Inr cp)]"
    using actions_trans [OF e12 e3] a3 by simp
  then have "actions w ?w4 = [Launch (PY # p # args) (Inr cp)]"
    using actions_trans [OF e13 e4] a4 by simp
  then show ?thesis using r w' e14 by simp
qed

lemma attempts_raises:
  assumes "sh run (PY # p # args) env None
             (logger_info ''Running %s %s (attempt %d/%d)''
                [path_name p, join '' '' args, str_int a, str_int (max_retries cfg)] w)
           = (Inl e, w2)"
    and "attempts run PY p args cfg env (a # rest) last_exc w = (r, w')"
  shows "\<exists>w4. attempts run PY p args cfg env rest (Some e) w4 = (r, w') \<and> extends w w4 \<and>
           actions w w4 = Launch (PY # p # args) (Inl e) #
             (if a < max_retries cfg then [Sleep (2 ^ nat (a - 1))] else [])"
proof -
  let ?w1 = "logger_info ''Running %s %s (attempt %d/%d)''
                [path_name p, join '' '' args, str_int a, str_int (max_retries cfg)] w"
  let ?w3 = "if cls e = TimeoutExpired
             then logger_error ''Timeout running %s: %s'' [path_name p, str e] w2
             else logger_exception ''Error running %s'' [path_name p] w2"
  let ?wl = "logger_info ''Retrying %s in %ds...'' [path_name p, str_nat (2 ^ nat (a - 1))] ?w3"
  let ?w4 = "if a < max_retries cfg then sleep (2 ^ nat (a - 1)) ?wl else ?w3"
  have run: "attempts run PY p args cfg env rest (Some e) ?w4 = (r, w')"
    using assms by (simp add: Let_def split: if_splits)
  have e1: "extends w ?w1" by (rule extends_logger)
  have e2: "extends ?w1 w2" using assms(1) by (rule extends_sh)
  have e3: "extends w2 ?w3" by (simp add: extends_logger)
  have el: "extends ?w3 ?wl" by (rule extends_logger)
  have es: "extends ?wl (sleep (2 ^ nat (a - 1)) ?wl)" by (rule extends_sleep)
  have e4: "extends ?w3 ?w4" using extends_trans [OF el es] by (simp add: extends_refl)
  have a1: "actions w ?w1 = []" by (rule actions_logger)
  have a2: "actions ?w1 w2 = [Launch (PY # p # args) (Inl e)]" using assms(1) by (rule actions_sh)
  have a3: "actions w2 ?w3 = []" by (simp add: actions_logger)
  have "actions ?w3 (sleep (2 ^ nat (a - 1)) ?wl) = [Sleep (2 ^ nat (a - 1))]"
    using actions_trans [OF el es] by (simp add: actions_logger actions_sleep)
  then have a4: "actions ?w3 ?w4 = (if a < max_retries cfg then [Sleep (2 ^ nat (a - 1))] else [])"
    by (simp add: actions_refl)
  have e12: "extends w w2" using e1 e2 by (rule extends_trans)
  have e13: "extends w ?w3" using e12 e3 by (rule extends_trans)
  have e14: "extends w ?w4" using e13 e4 by (rule extends_trans)
  have "actions w w2 = [Launch (PY # p # args) (Inl e)]"
    using actions_trans [OF e1 e2] a1 a2 by simp
  then have "actions w ?w3 = [Launch (PY # p # args) (Inl e)]"
    using actions_trans [OF e12 e3] a3 by simp
  then have "actions w ?w4 = Launch (PY # p # args) (Inl e) #
      (if a < max_retries cfg then [Sleep (2 ^ nat (a - 1))] else [])"
    using actions_trans [OF e13 e4] a4 by simp
  with run e14 show ?thesis by blast
qed

lemma attempts_extends:
  "attempts run PY p args cfg env as last_exc w = (r, w') \<Longrightarrow> extends w w'"
proof (induction as arbitrary: last_exc w)
  case Nil
  then show ?case by (auto simp: extends_refl split: option.splits)
next
  case (Cons a rest)
  obtain out w2 where sh: "sh run (PY # p # args) env None
             (logger_info ''Running %s %s (attempt %d/%d)''
                [path_name p, join '' '' args, str_int a, str_int (max_retries cfg)] w)
           = (out, w2)" by (cases "sh run (PY # p # args) env None
             (logger_info ''Running %s %s (attempt %d/%d)''
                [path_name p, join '' '' args, str_int a, str_int (max_retries cfg)] w)")
  show ?case
  proof (cases out)
    case (Inr cp)
    then show ?thesis using attempts_returns [OF _ Cons.prems] sh by blast
  next
    case (Inl e)
    then obtain w4 where "attempts run PY p args cfg env rest (Some e) w4 = (r, w')" "extends w w4"
      using attempts_raises [OF _ Cons.prems] sh by blast
    then show ?thesis using Cons.IH extends_trans by blast
  qed
qed

section \<open>The retry policy: attempts and backoff\<close>

lemma attempts_all_raise:
  assumes "nat (max_retries cfg - a + 1) = n" "1 \<le> a"
    and "attempts run PY p args cfg env [a..max_retries cfg] last_exc w = (r, w')"
    and "\<forall>c out. Launch c out \<in> set (actions w w') \<longrightarrow> isl out"
  shows "\<exists>excs. length excs = n \<and>
           actions w w' = backoff_trace (PY # p # args) (nat (a - 1)) excs \<and>
           r = Inl (if excs = []
                    then (case last_exc of Some e \<Rightarrow> e
                          | None \<Rightarrow> Exn RuntimeError ''Unknown execution failure'')
                    else last excs)"
  using assms
proof (induction n arbitrary: a last_exc w)
  case 0
  have nil: "[a..max_retries cfg] = []" using "0.prems"(1) by simp
  have "r = Inl (case last_exc of Some e \<Rightarrow> e
                       | None \<Rightarrow> Exn RuntimeError ''Unknown execution failure'')" "w' = w"
    using "0.prems"(3) unfolding nil by (auto split: option.splits)
  then show ?case
    by (intro exI [of _ "[]"]) (simp add: actions_refl)
next
  case (Suc n)
  let ?m = "max_retries cfg"
  have le: "a \<le> ?m" using Suc.prems(1) by linarith
  then have up: "[a..?m] = a # [a + 1..?m]" by (rule upto_rec1)
  obtain out w2 where sh: "sh run (PY # p # args) env None
             (logger_info ''Running %s %s (attempt %d/%d)''
                [path_name p, join '' '' args, str_int a, str_int ?m] w)
           = (out, w2)" by (cases "sh run (PY # p # args) env None
             (logger_info ''Running %s %s (attempt %d/%d)''
                [path_name p, join '' '' args, str_int a, str_int ?m] w)")
  have run: "attempts run PY p args cfg env (a # [a + 1..?m]) last_exc w = (r, w')"
    using Suc.prems(3) up by simp
  show ?case
  proof (cases out)
    case (Inr cp)
    then have "actions w w' = [Launch (PY # p # args) (Inr cp)]"
      using attempts_returns [OF _ run] sh by blast
    then have False using Suc.prems(4) by auto
    then show ?thesis ..
  next
    case (Inl e)
    then obtain w4 where w4: "attempts run PY p args cfg env [a + 1..?m] (Some e) w4 = (r, w')"
      "extends w w4"
      "actions w w4 = Launch (PY # p # args) (Inl e) #
             (if a < ?m then [Sleep (2 ^ nat (a - 1))] else [])"
      using attempts_raises [OF _ run] sh by blast
    have ext: "extends w4 w'" using w4(1) by (rule attempts_extends)
    have split: "actions w w' = actions w w4 @ actions w4 w'"
      using w4(2) ext by (rule actions_trans)
    have sub: "\<forall>c out. Launch c out \<in> set (actions w4 w') \<longrightarrow> isl out"
      using Suc.prems(4) split by auto
    have n: "nat (?m - (a + 1) + 1) = n" using Suc.prems(1) by linarith
    have a1: "1 \<le> a + 1" using Suc.prems(2) by simp
    have k: "nat (a + 1 - 1) = Suc (nat (a - 1))" using Suc.prems(2) by simp
    have "\<exists>excs. length excs = n \<and>
           actions w4 w' = backoff_trace (PY # p # args) (Suc (nat (a - 1))) excs \<and>
           r = Inl (if excs = [] then e else last excs)"
      using Suc.IH [OF n a1 w4(1) sub] unfolding k option.case .
    then obtain excs where excs: "length excs = n"
      "actions w4 w' = backoff_trace (PY # p # args) (Suc (nat (a - 1))) excs"
      "r = Inl (if excs = [] then e else last excs)"
      by (elim exE conjE)
    have "length (e # excs) = Suc n \<and>
          actions w w' = backoff_trace (PY # p # args) (nat (a - 1)) (e # excs) \<and>
          r = Inl (if e # excs = []
                   then (case last_exc of Some e \<Rightarrow> e
                         | None \<Rightarrow> Exn RuntimeError ''Unknown execution failure'')
                   else last (e # excs))"
    proof (cases excs)
      case Nil
      then have "n = 0" using excs(1) by simp
      then have "\<not> a < ?m" using n by linarith
      then show ?thesis using Nil excs split w4(3) by simp
    next
      case (Cons e' es)
      then have "0 < n" using excs(1) by auto
      then have "a < ?m" using n by linarith
      then show ?thesis using Cons excs split w4(3) by simp
    qed
    then show ?thesis by (rule exI [of _ "e # excs"])
  qed
qed

lemma execute_agent_extends:
  "execute_agent run PY p args cfg env w = (r, w') \<Longrightarrow> extends w w'"
  unfolding execute_agent_def by (rule attempts_extends)

lemma execute_agent_first_launch:
  assumes "1 \<le> max_retries cfg"
    and "execute_agent run PY p args cfg env w = (r, w')"
  shows "\<exists>out rest. actions w w' = Launch (PY # p # args) out # rest"
proof -
  let ?m = "max_retries cfg"
  have up: "[1..?m] = 1 # [1 + 1..?m]" using assms(1) by (rule upto_rec1)
  have run: "attempts run PY p args cfg env (1 # [1 + 1..?m]) None w = (r, w')"
    using assms(2) up by (simp add: execute_agent_def)
  obtain out w2 where sh: "sh run (PY # p # args) env None
             (logger_info ''Running %s %s (attempt %d/%d)''
                [path_name p, join '' '' args, str_int 1, str_int ?m] w)
           = (out, w2)" by (cases "sh run (PY # p # args) env None
             (logger_info ''Running %s %s (attempt %d/%d)''
                [path_name p, join '' '' args, str_int 1, str_int ?m] w)")
  show ?thesis
  proof (cases out)
    case (Inr cp)
    then have "actions w w' = Launch (PY # p # args) (Inr cp) # []"
      using attempts_returns [OF _ run] sh by simp
    then show ?thesis by (intro exI)
  next
    case (Inl e)
    have "\<exists>w4. attempts run PY p args cfg env [1 + 1..?m] (Some e) w4 = (r, w') \<and>
           extends w w4 \<and>
           actions w w4 = Launch (PY # p # args) (Inl e) #
             (if 1 < ?m then [Sleep (2 ^ nat (1 - 1))] else [])"
      using attempts_raises [OF _ run] sh Inl by simp
    then obtain w4 where w4: "attempts run PY p args cfg env [1 + 1..?m] (Some e) w4 = (r, w')"
      "extends w w4"
      "actions w w4 = Launch (PY # p # args) (Inl e) #
             (if 1 < ?m then [Sleep (2 ^ nat (1 - 1))] else [])"
      by (elim exE conjE)
    have "extends w4 w'" using w4(1) by (rule attempts_extends)
    then have "actions w w' = actions w w4 @ actions w4 w'"
      using w4(2) actions_trans by simp
    then have "actions w w' = Launch (PY # p # args) (Inl e) #
        ((if 1 < ?m then [Sleep (2 ^ nat (1 - 1))] else []) @ actions w4 w')"
      using w4(3) by simp
    then show ?thesis by (intro exI)
  qed
qed

lemma execute_agent_first_returns:
  assumes "execute_agent run PY p args cfg env w = (r, w')"
    and "actions w w' = Launch c (Inr cp) # rest"
  shows "actions w w' = [Launch (PY # p # args) (Inr cp)] \<and> r = Inr cp"
proof -
  let ?m = "max_retries cfg"
  have run: "attempts run PY p args cfg env [1..?m] None w = (r, w')"
    using assms(1) by (simp add: execute_agent_def)
  have le: "1 \<le> ?m"
  proof (rule ccontr)
    assume "\<not> 1 \<le> ?m"
    then have "[1..?m] = []" by simp
    then have "w' = w" using run by simp
    then show False using assms(2) by (simp add: actions_refl)
  qed
  then have up: "[1..?m] = 1 # [1 + 1..?m]" by (rule upto_rec1)
  obtain out w2 where sh: "sh run (PY # p # args) env None
             (logger_info ''Running %s %s (attempt %d/%d)''
                [path_name p, join '' '' args, str_int 1, str_int ?m] w)
           = (out, w2)" by (cases "sh run (PY # p # args) env None
             (logger_info ''Running %s %s (attempt %d/%d)''
                [path_name p, join '' '' args, str_int 1, str_int ?m] w)")
  have run': "attempts run PY p args cfg env (1 # [1 + 1..?m]) None w = (r, w')"
    using run up by simp
  show ?thesis
  proof (cases out)
    case (Inr cp')
    then have *: "r = Inr cp'" "actions w w' = [Launch (PY # p # args) (Inr cp')]"
      using attempts_returns [OF _ run'] sh by blast+
    then have "cp' = cp" using assms(2) by simp
    then show ?thesis using * by simp
  next
    case (Inl e)
    then obtain w4 where w4: "attempts run PY p args cfg env [1 + 1..?m] (Some e) w4 = (r, w')"
      "extends w w4"
      "actions w w4 = Launch (PY # p # args) (Inl e) #
             (if 1 < ?m then [Sleep (2 ^ nat (1 - 1))] else [])"
      using attempts_raises [OF _ run'] sh by blast
    have "extends w4 w'" using w4(1) by (rule attempts_extends)
    then have "actions w w' = actions w w4 @ actions w4 w'"
      using w4(2) actions_trans by blast
    then have False using w4(3) assms(2) by simp
    then show ?thesis ..
  qed
qed

text \<open>
  C2: the retry policy. When every attempt raises, the policy launches the tool
  \<open>max_retries\<close> times (not at all when \<open>max_retries\<close> is not positive), sleeps
  \<open>2 ^ (k - 1)\<close> seconds between attempt \<open>k\<close> and the next, does not sleep after the last
  attempt, and then raises the fault of the last attempt, or a \<^verbatim>\<open>RuntimeError\<close> when no
  attempt was made. When the first attempt returns, its launch is the only action, with
  no sleep, and what it returned is the result.
\<close>

theorem execute_agent_backoff:
  assumes "execute_agent run PY p args cfg env w = (r, w')"
  shows "((\<forall>c out. Launch c out \<in> set (actions w w') \<longrightarrow> isl out) \<longrightarrow>
            (\<exists>excs. length excs = nat (max_retries cfg) \<and>
               actions w w' = backoff_trace (PY # p # args) 0 excs \<and>
               r = Inl (if excs = [] then Exn RuntimeError ''Unknown execution failure''
                        else last excs)))
         \<and> (\<forall>c cp rest. actions w w' = Launch c (Inr cp) # rest \<longrightarrow>
               actions w w' = [Launch (PY # p # args) (Inr cp)] \<and> r = Inr cp)"
proof (intro conjI impI allI)
  assume all: "\<forall>c out. Launch c out \<in> set (actions w w') \<longrightarrow> isl out"
  have run: "attempts run PY p args cfg env [1..max_retries cfg] None w = (r, w')"
    using assms by (simp add: execute_agent_def)
  have n: "nat (max_retries cfg - 1 + 1) = nat (max_retries cfg)" by simp
  show "\<exists>excs. length excs = nat (max_retries cfg) \<and>
               actions w w' = backoff_trace (PY # p # args) 0 excs \<and>
               r = Inl (if excs = [] then Exn RuntimeError ''Unknown execution failure''
                        else last excs)"
    using attempts_all_raise [OF n _ run all] unfolding option.case by simp
next
  fix c cp rest
  assume "actions w w' = Launch c (Inr cp) # rest"
  with assms show "actions w w' = [Launch (PY # p # args) (Inr cp)]" "r = Inr cp"
    using execute_agent_first_returns by blast+
qed

section \<open>One task\<close>

lemma attempts_launches:
  "attempts run PY p args cfg env as last_exc w = (r, w') \<Longrightarrow>
   Launch c out \<in> set (actions w w') \<Longrightarrow> c = PY # p # args"
proof (induction as arbitrary: last_exc w)
  case Nil
  then have "w' = w" by (auto split: option.splits)
  then show ?case using Nil.prems(2) by (simp add: actions_refl)
next
  case (Cons a rest)
  obtain out' w2 where sh: "sh run (PY # p # args) env None
             (logger_info ''Running %s %s (attempt %d/%d)''
                [path_name p, join '' '' args, str_int a, str_int (max_retries cfg)] w)
           = (out', w2)" by (cases "sh run (PY # p # args) env None
             (logger_info ''Running %s %s (attempt %d/%d)''
                [path_name p, join '' '' args, str_int a, str_int (max_retries cfg)] w)")
  show ?case
  proof (cases out')
    case (Inr cp)
    then have "actions w w' = [Launch (PY # p # args) (Inr cp)]"
      using attempts_returns [OF _ Cons.prems(1)] sh by simp
    then show ?thesis using Cons.prems(2) by simp
  next
    case (Inl e)
    have "\<exists>w4. attempts run PY p args cfg env rest (Some e) w4 = (r, w') \<and> extends w w4 \<and>
           actions w w4 = Launch (PY # p # args) (Inl e) #
             (if a < max_retries cfg then [Sleep (2 ^ nat (a - 1))] else [])"
      using attempts_raises [OF _ Cons.prems(1)] sh Inl by simp
    then obtain w4 where w4: "attempts run PY p args cfg env rest (Some e) w4 = (r, w')"
      "extends w w4"
      "actions w w4 = Launch (PY # p # args) (Inl e) #
             (if a < max_retries cfg then [Sleep (2 ^ nat (a - 1))] else [])"
      by (elim exE conjE)
    have "extends w4 w'" using w4(1) by (rule attempts_extends)
    then have "actions w w' = actions w w4 @ actions w4 w'"
      using w4(2) actions_trans by simp
    then have "Launch c out \<in> set (actions w w4) \<or> Launch c out \<in> set (actions w4 w')"
      using Cons.prems(2) by simp
    then show ?thesis
    proof
      assume "Launch c out \<in> set (actions w w4)"
      then show ?thesis using w4(3) by (simp split: if_splits)
    next
      assume "Launch c out \<in> set (actions w4 w')"
      then show ?thesis using Cons.IH [OF w4(1)] by simp
    qed
  qed
qed

lemma execute_agent_launches:
  "execute_agent run PY p args cfg env w = (r, w') \<Longrightarrow>
   Launch c out \<in> set (actions w w') \<Longrightarrow> c = PY # p # args"
  unfolding execute_agent_def by (rule attempts_launches)

text \<open>In steady surroundings the clock does not go back while the policy runs.\<close>

lemma attempts_clock:
  assumes "steady run"
  shows "attempts run PY p args cfg env as last_exc w = (r, w') \<Longrightarrow> clock w \<le> clock w'"
proof (induction as arbitrary: last_exc w)
  case Nil
  then have "w' = w" by (auto split: option.splits)
  then show ?case by simp
next
  case (Cons a rest)
  let ?w1 = "logger_info ''Running %s %s (attempt %d/%d)''
                [path_name p, join '' '' args, str_int a, str_int (max_retries cfg)] w"
  obtain out d where o: "run ?w1 (PY # p # args) env None = (out, d)"
    by (cases "run ?w1 (PY # p # args) env None")
  have "0 \<le> snd (run ?w1 (PY # p # args) env None)"
    using assms unfolding steady_def by blast
  then have d: "0 \<le> d" using o by simp
  let ?w2 = "?w1\<lparr>clock := clock ?w1 + d,
                  trace := trace ?w1 @ [Launch (PY # p # args) out]\<rparr>"
  have sh: "sh run (PY # p # args) env None ?w1 = (out, ?w2)"
    by (simp add: sh_def subprocess_run_def o)
  have c2: "clock w \<le> clock ?w2" using d by (simp add: logger_info_def)
  show ?case
  proof (cases out)
    case (Inr cp)
    have "clock w' = clock ?w2"
      using Cons.prems sh Inr
      by (auto simp: Let_def logger_info_def logger_warning_def split: if_splits)
    then show ?thesis using c2 by simp
  next
    case (Inl e)
    let ?w3 = "if cls e = TimeoutExpired
               then logger_error ''Timeout running %s: %s'' [path_name p, str e] ?w2
               else logger_exception ''Error running %s'' [path_name p] ?w2"
    let ?wl = "logger_info ''Retrying %s in %ds...'' [path_name p, str_nat (2 ^ nat (a - 1))] ?w3"
    let ?w4 = "if a < max_retries cfg then sleep (2 ^ nat (a - 1)) ?wl else ?w3"
    have run: "attempts run PY p args cfg env rest (Some e) ?w4 = (r, w')"
      using Cons.prems sh Inl by (simp add: Let_def split: if_splits)
    have "clock ?w2 \<le> clock ?w4"
      by (simp add: sleep_def logger_info_def logger_error_def logger_exception_def)
    moreover have "clock ?w4 \<le> clock w'" using run by (rule Cons.IH)
    ultimately show ?thesis using c2 by linarith
  qed
qed

lemma execute_agent_clock:
  "steady run \<Longrightarrow> execute_agent run PY p args cfg env w = (r, w') \<Longrightarrow> clock w \<le> clock w'"
  unfolding execute_agent_def by (rule attempts_clock)

lemma run_username_Some:
  assumes "agents cfg ''username'' = Some p"
    and "execute_agent run PY p [value] cfg env w = (r, w1)"
  shows "run_username run PY value cfg env w =
    (settle \<lparr>target = value, agent = ''username'', status = RUNNING,
                start_time = Some (clock w), end_time = None, task_returncode = None,
                error = None\<rparr> r (clock w1),
     logger_info (''Username task %s '' @ arrow @ '' %s'')
       [value, status_value (status (settle \<lparr>target = value, agent = ''username'', status = RUNNING,
                start_time = Some (clock w), end_time = None, task_returncode = None,
                error = None\<rparr> r (clock w1)))] w1)"
  using assms by (cases r) (simp_all add: run_username_def settle_def now_def Let_def)

lemma run_username_None:
  assumes "agents cfg ''username'' = None"
  shows "run_username run PY value cfg env w =
    (\<lparr>target = value, agent = ''username'', status = FAILED,
                start_time = Some (clock w), end_time = Some (clock w), task_returncode = None,
                error = Some (str (key_error ''username''))\<rparr>,
     logger_info (''Username task %s '' @ arrow @ '' %s'') [value, ''failed''] w)"
  using assms by (simp add: run_username_def now_def Let_def)

lemma run_spiderfoot_Some:
  assumes "agents cfg ''spiderfoot'' = Some p"
    and "execute_agent run PY p [value] cfg env w = (r, w1)"
  shows "run_spiderfoot run PY kind value cfg env w =
    (settle \<lparr>target = kind @ '':'' @ value, agent = ''spiderfoot'', status = RUNNING,
                start_time = Some (clock w), end_time = None, task_returncode = None,
                error = None\<rparr> r (clock w1),
     logger_info (''SpiderFoot task %s '' @ arrow @ '' %s'')
       [kind @ '':'' @ value, status_value (status (settle \<lparr>target = kind @ '':'' @ value, agent = ''spiderfoot'', status = RUNNING,
                start_time = Some (clock w), end_time = None, task_returncode = None,
                error = None\<rparr> r (clock w1)))] w1)"
  using assms by (cases r) (simp_all add: run_spiderfoot_def settle_def now_def Let_def)

lemma run_spiderfoot_None:
  assumes "agents cfg ''spiderfoot'' = None"
  shows "run_spiderfoot run PY kind value cfg env w =
    (\<lparr>target = kind @ '':'' @ value, agent = ''spiderfoot'', status = FAILED,
                start_time = Some (clock w), end_time = Some (clock w), task_returncode = None,
                error = Some (str (key_error ''spiderfoot''))\<rparr>,
     logger_info (''SpiderFoot task %s '' @ arrow @ '' %s'') [kind @ '':'' @ value, ''failed''] w)"
  using assms by (simp add: run_spiderfoot_def now_def Let_def)

lemma well_formed_settle:
  "start_time t = Some s \<Longrightarrow> (forward \<longrightarrow> s \<le> at) \<Longrightarrow>
   well_formed forward (settle t r at)"
  by (cases r) (simp_all add: well_formed_def settle_def)

lemma run_username_well_formed:
  assumes "run_username run PY value cfg env w = (t, w')"
  shows "well_formed (steady run) t \<and> extends w w'"
proof (cases "agents cfg ''username''")
  case None
  show ?thesis using assms unfolding run_username_None [OF None]
    by (auto simp: well_formed_def extends_logger)
next
  case (Some p)
  obtain r w1 where ex: "execute_agent run PY p [value] cfg env w = (r, w1)"
    by (cases "execute_agent run PY p [value] cfg env w")
  have e1: "extends w w1" using ex by (rule execute_agent_extends)
  have c: "steady run \<longrightarrow> clock w \<le> clock w1" using execute_agent_clock [OF _ ex] by simp
  have "extends w1 w'" using assms unfolding run_username_Some [OF Some ex]
    by (auto simp: extends_logger)
  then have e: "extends w w'" using e1 extends_trans by blast
  have "well_formed (steady run) t" using assms c unfolding run_username_Some [OF Some ex]
    by (auto intro!: well_formed_settle)
  then show ?thesis using e by simp
qed

lemma run_spiderfoot_well_formed:
  assumes "run_spiderfoot run PY kind value cfg env w = (t, w')"
  shows "well_formed (steady run) t \<and> extends w w'"
proof (cases "agents cfg ''spiderfoot''")
  case None
  show ?thesis using assms unfolding run_spiderfoot_None [OF None]
    by (auto simp: well_formed_def extends_logger)
next
  case (Some p)
  obtain r w1 where ex: "execute_agent run PY p [value] cfg env w = (r, w1)"
    by (cases "execute_agent run PY p [value] cfg env w")
  have e1: "extends w w1" using ex by (rule execute_agent_extends)
  have c: "steady run \<longrightarrow> clock w \<le> clock w1" using execute_agent_clock [OF _ ex] by simp
  have "extends w1 w'" using assms unfolding run_spiderfoot_Some [OF Some ex]
    by (auto simp: extends_logger)
  then have e: "extends w w'" using e1 extends_trans by blast
  have "well_formed (steady run) t" using assms c unfolding run_spiderfoot_Some [OF Some ex]
    by (auto intro!: well_formed_settle)
  then show ?thesis using e by simp
qed

lemma dispatch_task_well_formed:
  assumes "dispatch_task run PY cfg env kind value w = (t, w')"
  shows "well_formed (steady run) t \<and> extends w w'"
proof -
  consider "kind = ''username''"
    | "kind \<noteq> ''username''" "kind \<in> {''domain'', ''email'', ''ip'', ''phone''}"
    | "kind \<noteq> ''username''" "kind \<notin> {''domain'', ''email'', ''ip'', ''phone''}"
    by blast
  then show ?thesis
  proof cases
    case 1
    then have "run_username run PY value cfg (Some env) w = (t, w')"
      using assms by (simp add: dispatch_task_def)
    then show ?thesis by (rule run_username_well_formed)
  next
    case 2
    then have "run_spiderfoot run PY kind value cfg (Some env) w = (t, w')"
      using assms unfolding dispatch_task_def by (simp only: if_True if_False)
    then show ?thesis by (rule run_spiderfoot_well_formed)
  next
    case 3
    then have "t = \<lparr>target = value, agent = ''unknown'', status = FAILED,
                    start_time = Some (now w), end_time = Some (now w),
                    task_returncode = None, error = Some (''unknown type '' @ kind)\<rparr>"
      "w' = logger_warning ''Unknown type '%s', skipping %s'' [kind, value] w"
      using assms unfolding dispatch_task_def by (simp_all only: if_False Let_def prod.inject)
    then show ?thesis by (simp add: well_formed_def extends_logger)
  qed
qed

lemma run_sequential_results:
  assumes "run_sequential run PY cfg env tasks results w = (rs, w')"
  shows "length rs = length results + length tasks \<and> take (length results) rs = results \<and>
         extends w w' \<and>
         (\<forall>j < length tasks. \<exists>wj. rs ! (length results + j) =
            fst (dispatch_task run PY cfg env (fst (tasks ! j)) (snd (tasks ! j)) wj))"
  using assms
proof (induction tasks arbitrary: results w)
  case Nil
  then show ?case by (simp add: extends_refl)
next
  case (Cons task rest)
  obtain kind "value" where task: "task = (kind, value)" by (cases task)
  obtain res w1 where d: "dispatch_task run PY cfg env kind value w = (res, w1)"
    by (cases "dispatch_task run PY cfg env kind value w")
  have run: "run_sequential run PY cfg env rest (results @ [res]) w1 = (rs, w')"
    using Cons.prems task d by simp
  note ih = Cons.IH [OF run]
  have len: "length rs = length results + length (task # rest)" using ih by simp
  have tk: "take (Suc (length results)) rs = results @ [res]" using ih by simp
  have "take (length results) (take (Suc (length results)) rs) =
        take (length results) (results @ [res])"
    using tk by simp
  then have pre: "take (length results) rs = results" by (simp add: min_def)
  have "take (Suc (length results)) rs ! length results = (results @ [res]) ! length results"
    using tk by simp
  then have at: "rs ! length results = res" by simp
  have ext: "extends w w'"
    using dispatch_task_well_formed [OF d] ih extends_trans by blast
  have "\<exists>wj. rs ! (length results + j) =
            fst (dispatch_task run PY cfg env (fst ((task # rest) ! j)) (snd ((task # rest) ! j)) wj)"
    if "j < length (task # rest)" for j
  proof (cases j)
    case 0
    have "rs ! (length results + 0) = fst (dispatch_task run PY cfg env kind value w)"
      using at d by simp
    then show ?thesis using 0 task by auto
  next
    case (Suc i)
    then have "i < length rest" using that by simp
    then obtain wj where "rs ! (length (results @ [res]) + i) =
            fst (dispatch_task run PY cfg env (fst (rest ! i)) (snd (rest ! i)) wj)"
      using ih by blast
    then show ?thesis using Suc by auto
  qed
  then show ?case using len pre ext by blast
qed

section \<open>The pool\<close>

lemma collect_results:
  assumes "collect futs results w = (rs, w')"
  shows "\<exists>ats. length ats = length futs \<and> rs = results @ map2 yielded futs ats"
  using assms
proof (induction futs arbitrary: results w)
  case Nil
  then show ?case by simp
next
  case (Cons fut futs)
  show ?case
  proof (cases "outcome_of fut")
    case (Inr res)
    then have "collect futs (results @ [res]) (joined w fut) = (rs, w')"
      using Cons.prems by (simp add: Let_def)
    then obtain ats where ats: "length ats = length futs"
      "rs = (results @ [res]) @ map2 yielded futs ats"
      using Cons.IH by blast
    have "length (0 # ats) = length (fut # futs) \<and>
          rs = results @ map2 yielded (fut # futs) (0 # ats)"
      using ats Inr by (simp add: yielded_def)
    then show ?thesis by (rule exI [of _ "0 # ats"])
  next
    case (Inl e)
    obtain k v where kv: "key fut = (k, v)" by (cases "key fut")
    let ?w2 = "logger_exception ''Task %s:%s raised'' [k, v] (joined w fut)"
    let ?res = "\<lparr>target = k @ '':'' @ v, agent = ''unknown'', status = FAILED,
                  start_time = Some (now ?w2), end_time = Some (now ?w2),
                  task_returncode = None, error = Some (str e)\<rparr>"
    have "collect futs (results @ [?res]) ?w2 = (rs, w')"
      using Cons.prems Inl kv by (simp add: Let_def)
    then obtain ats where ats: "length ats = length futs"
      "rs = (results @ [?res]) @ map2 yielded futs ats"
      using Cons.IH by blast
    have "length (now ?w2 # ats) = length (fut # futs) \<and>
          rs = results @ map2 yielded (fut # futs) (now ?w2 # ats)"
      using ats Inl kv by (simp add: yielded_def)
    then show ?thesis by (rule exI [of _ "now ?w2 # ats"])
  qed
qed

lemma collect_total: "\<exists>rs w'. collect futs results w = (rs, w')"
  by (cases "collect futs results w") blast

lemma sort_key_range:
  "length (sort_key finish [0..<n]) = n"
  "set (sort_key finish [0..<n]) = {..<n}"
  "distinct (sort_key finish [0..<n])"
  by (auto simp: atLeast0LessThan)

lemma length_as_completed: "length (as_completed finish futs) = length futs"
  by (simp add: as_completed_def)

lemma nth_as_completed:
  "j < length futs \<Longrightarrow>
   as_completed finish futs ! j = futs ! (sort_key finish [0..<length futs] ! j)"
  by (simp add: as_completed_def)

lemma nth_submitted:
  assumes "i < length tasks"
  shows "map (\<lambda>(i, (k, v)). submit fn k v (obs i)) (enumerate 0 tasks) ! i =
         submit fn (fst (tasks ! i)) (snd (tasks ! i)) (obs i)"
  using assms by (simp add: nth_enumerate_eq split_beta)

lemma submit_sel:
  "key (submit fn k v w0) = (k, v)" "outcome_of (submit fn k v w0) = fst (fn k v w0)"
  by (simp_all add: submit_def split: prod.splits)

lemma run_pool_results:
  assumes "0 < max_workers"
  shows "\<exists>rs ats w'. run_pool fn max_workers tasks obs finish [] w = (Inr rs, w') \<and>
           length ats = length tasks \<and>
           rs = map2 yielded
                  (map (\<lambda>i. submit fn (fst (tasks ! i)) (snd (tasks ! i)) (obs i))
                     (sort_key finish [0..<length tasks])) ats"
proof -
  let ?futs = "map (\<lambda>(i, (k, v)). submit fn k v (obs i)) (enumerate 0 tasks)"
  let ?ord = "sort_key finish [0..<length tasks]"
  obtain rs w' where c: "collect (as_completed finish ?futs) [] w = (rs, w')"
    using collect_total by blast
  then obtain ats where ats: "length ats = length (as_completed finish ?futs)"
    "rs = [] @ map2 yielded (as_completed finish ?futs) ats"
    using collect_results by blast
  have len: "length ?futs = length tasks" by simp
  have "\<forall>i \<in> set ?ord. i < length tasks" using sort_key_range(2) [of finish "length tasks"] by auto
  then have "map (\<lambda>i. ?futs ! i) ?ord =
             map (\<lambda>i. submit fn (fst (tasks ! i)) (snd (tasks ! i)) (obs i)) ?ord"
    using nth_submitted by (intro map_cong) auto
  then have ac: "as_completed finish ?futs =
             map (\<lambda>i. submit fn (fst (tasks ! i)) (snd (tasks ! i)) (obs i)) ?ord"
    unfolding as_completed_def len .
  have run: "run_pool fn max_workers tasks obs finish [] w = (Inr rs, w')"
    using assms c by (simp add: run_pool_def Let_def)
  have "run_pool fn max_workers tasks obs finish [] w = (Inr rs, w') \<and>
           length ats = length tasks \<and>
           rs = map2 yielded
                  (map (\<lambda>i. submit fn (fst (tasks ! i)) (snd (tasks ! i)) (obs i)) ?ord) ats"
    using run ats ac by (simp add: length_as_completed)
  then show ?thesis by blast
qed

section \<open>The dispatcher and the driver\<close>

lemma dispatch_sequential:
  assumes "\<not> (parallel cfg \<and> tasks \<noteq> [])"
  shows "\<exists>rs w'. dispatch run PY cfg env tasks obs finish w = (Inr rs, w') \<and>
           length rs = length tasks \<and>
           (\<forall>j < length tasks. \<exists>wj. rs ! j =
              fst (dispatch_task run PY cfg env (fst (tasks ! j)) (snd (tasks ! j)) wj))"
proof -
  obtain rs w' where r: "run_sequential run PY cfg env tasks [] w = (rs, w')"
    by (cases "run_sequential run PY cfg env tasks [] w")
  have d: "dispatch run PY cfg env tasks obs finish w = (Inr rs, w')"
    unfolding dispatch_def if_not_P [OF assms] r by simp
  have "length rs = length tasks \<and>
           (\<forall>j < length tasks. \<exists>wj. rs ! j =
              fst (dispatch_task run PY cfg env (fst (tasks ! j)) (snd (tasks ! j)) wj))"
    using run_sequential_results [OF r] by simp
  with d show ?thesis by (intro exI [of _ rs] exI [of _ w']) simp
qed



lemma build_summary_extends: "extends w (build_summary run PY cfg env w)"
proof -
  let ?w0 = "logger_info (''Building summary'' @ ellipsis) [] w"
  have e0: "extends w ?w0" by (rule extends_logger)
  show ?thesis
  proof (cases "agents cfg ''summary''")
    case None
    then have "build_summary run PY cfg env w =
      logger_exception ''Summary generation failed: %s'' [str (key_error ''summary'')] ?w0"
      by (simp add: build_summary_def Let_def)
    then show ?thesis using extends_trans [OF e0 extends_logger(4)] by simp
  next
    case (Some p)
    obtain r w1 where ex: "execute_agent run PY p [] cfg (Some env) ?w0 = (r, w1)"
      by (cases "execute_agent run PY p [] cfg (Some env) ?w0")
    have e1: "extends w w1" using e0 execute_agent_extends [OF ex] by (rule extends_trans)
    have "extends w1 (build_summary run PY cfg env w)"
      using Some ex by (cases r) (auto simp: build_summary_def Let_def extends_logger extends_refl
          intro: extends_trans [OF extends_logger(1) extends_logger(2)])
    with e1 show ?thesis by (rule extends_trans)
  qed
qed

lemma build_summary_failure:
  assumes "agents cfg ''summary'' = Some p"
    and "execute_agent run PY p [] cfg (Some env)
           (logger_info (''Building summary'' @ ellipsis) [] w) = (Inl e, w1)"
  shows "build_summary run PY cfg env w =
           logger_exception ''Summary generation failed: %s'' [str e] w1"
  using assms by (simp add: build_summary_def Let_def)

section \<open>Timeouts\<close>





section \<open>Routing and results\<close>

lemma run_username_actions:
  assumes "agents cfg ''username'' = Some p"
    and "execute_agent run PY p [value] cfg env w = (r, w1)"
  shows "actions w (snd (run_username run PY value cfg env w)) = actions w w1"
proof -
  have e1: "extends w w1" using assms(2) by (rule execute_agent_extends)
  show ?thesis unfolding run_username_Some [OF assms] snd_conv
    using actions_trans [OF e1 extends_logger(1)] by (simp add: actions_logger)
qed

lemma run_spiderfoot_actions:
  assumes "agents cfg ''spiderfoot'' = Some p"
    and "execute_agent run PY p [value] cfg env w = (r, w1)"
  shows "actions w (snd (run_spiderfoot run PY kind value cfg env w)) = actions w w1"
proof -
  have e1: "extends w w1" using assms(2) by (rule execute_agent_extends)
  show ?thesis unfolding run_spiderfoot_Some [OF assms] snd_conv
    using actions_trans [OF e1 extends_logger(1)] by (simp add: actions_logger)
qed

lemma run_username_launches:
  assumes "Launch c out \<in> set (actions w (snd (run_username run PY value cfg env w)))"
  shows "\<exists>p. agents cfg ''username'' = Some p \<and> c = [PY, p, value]"
proof (cases "agents cfg ''username''")
  case None
  then have "actions w (snd (run_username run PY value cfg env w)) = []"
    unfolding run_username_None [OF None] by (simp add: actions_logger)
  then show ?thesis using assms by simp
next
  case (Some p)
  obtain r w1 where ex: "execute_agent run PY p [value] cfg env w = (r, w1)"
    by (cases "execute_agent run PY p [value] cfg env w")
  have "Launch c out \<in> set (actions w w1)"
    using assms run_username_actions [OF Some ex] by simp
  then have "c = [PY, p, value]" using execute_agent_launches [OF ex] by simp
  then show ?thesis using Some by simp
qed

lemma run_spiderfoot_launches:
  assumes "Launch c out \<in> set (actions w (snd (run_spiderfoot run PY kind value cfg env w)))"
  shows "\<exists>p. agents cfg ''spiderfoot'' = Some p \<and> c = [PY, p, value]"
proof (cases "agents cfg ''spiderfoot''")
  case None
  then have "actions w (snd (run_spiderfoot run PY kind value cfg env w)) = []"
    unfolding run_spiderfoot_None [OF None] by (simp add: actions_logger)
  then show ?thesis using assms by simp
next
  case (Some p)
  obtain r w1 where ex: "execute_agent run PY p [value] cfg env w = (r, w1)"
    by (cases "execute_agent run PY p [value] cfg env w")
  have "Launch c out \<in> set (actions w w1)"
    using assms run_spiderfoot_actions [OF Some ex] by simp
  then have "c = [PY, p, value]" using execute_agent_launches [OF ex] by simp
  then show ?thesis using Some by simp
qed

text \<open>
  C4: routing by kind. The kind \<open>username\<close> runs \<^verbatim>\<open>run_username\<close>, which launches the
  username agent on the value, and nothing else; the kinds \<open>domain\<close>, \<open>email\<close>, \<open>ip\<close> and
  \<open>phone\<close> run \<^verbatim>\<open>run_spiderfoot\<close>, which launches the SpiderFoot agent on the value, and
  nothing else (the launch takes place when the agent is configured and at least one
  attempt is allowed); any other kind gives at once a failed result whose error is
  \<^verbatim>\<open>unknown type\<close> followed by the kind, with no launch and no sleep.
\<close>

theorem dispatch_task_routing:
  "(kind = ''username'' \<longrightarrow>
      dispatch_task run PY cfg env kind value w = run_username run PY value cfg (Some env) w \<and>
      (\<forall>c out. Launch c out \<in> set (actions w (snd (dispatch_task run PY cfg env kind value w)))
         \<longrightarrow> (\<exists>p. agents cfg ''username'' = Some p \<and> c = [PY, p, value])) \<and>
      (\<forall>p. agents cfg ''username'' = Some p \<and> 1 \<le> max_retries cfg \<longrightarrow>
         (\<exists>out rest. actions w (snd (dispatch_task run PY cfg env kind value w)) =
            Launch [PY, p, value] out # rest)))
   \<and> (kind \<in> {''domain'', ''email'', ''ip'', ''phone''} \<longrightarrow>
      dispatch_task run PY cfg env kind value w =
        run_spiderfoot run PY kind value cfg (Some env) w \<and>
      (\<forall>c out. Launch c out \<in> set (actions w (snd (dispatch_task run PY cfg env kind value w)))
         \<longrightarrow> (\<exists>p. agents cfg ''spiderfoot'' = Some p \<and> c = [PY, p, value])) \<and>
      (\<forall>p. agents cfg ''spiderfoot'' = Some p \<and> 1 \<le> max_retries cfg \<longrightarrow>
         (\<exists>out rest. actions w (snd (dispatch_task run PY cfg env kind value w)) =
            Launch [PY, p, value] out # rest)))
   \<and> (kind \<notin> {''username'', ''domain'', ''email'', ''ip'', ''phone''} \<longrightarrow>
      fst (dispatch_task run PY cfg env kind value w) =
        \<lparr>target = value, agent = ''unknown'', status = FAILED,
         start_time = Some (clock w), end_time = Some (clock w),
         task_returncode = None, error = Some (''unknown type '' @ kind)\<rparr> \<and>
      actions w (snd (dispatch_task run PY cfg env kind value w)) = [])"
proof (intro conjI impI allI)
  assume k: "kind = ''username''"
  then show u: "dispatch_task run PY cfg env kind value w =
      run_username run PY value cfg (Some env) w"
    by (simp add: dispatch_task_def)
  show "Launch c out \<in> set (actions w (snd (dispatch_task run PY cfg env kind value w)))
         \<Longrightarrow> \<exists>p. agents cfg ''username'' = Some p \<and> c = [PY, p, value]" for c out
    unfolding u by (rule run_username_launches)
  show "\<exists>out rest. actions w (snd (dispatch_task run PY cfg env kind value w)) =
            Launch [PY, p, value] out # rest"
    if "agents cfg ''username'' = Some p \<and> 1 \<le> max_retries cfg" for p
  proof -
    obtain r w1 where ex: "execute_agent run PY p [value] cfg (Some env) w = (r, w1)"
      by (cases "execute_agent run PY p [value] cfg (Some env) w")
    have "actions w (snd (run_username run PY value cfg (Some env) w)) = actions w w1"
      using that ex run_username_actions by blast
    then show ?thesis unfolding u using execute_agent_first_launch [OF _ ex] that by simp
  qed
next
  assume k: "kind \<in> {''domain'', ''email'', ''ip'', ''phone''}"
  then have "kind \<noteq> ''username''" by auto
  then show s: "dispatch_task run PY cfg env kind value w =
      run_spiderfoot run PY kind value cfg (Some env) w"
    unfolding dispatch_task_def using k by (simp only: if_True if_False)
  show "Launch c out \<in> set (actions w (snd (dispatch_task run PY cfg env kind value w)))
         \<Longrightarrow> \<exists>p. agents cfg ''spiderfoot'' = Some p \<and> c = [PY, p, value]" for c out
    unfolding s by (rule run_spiderfoot_launches)
  show "\<exists>out rest. actions w (snd (dispatch_task run PY cfg env kind value w)) =
            Launch [PY, p, value] out # rest"
    if "agents cfg ''spiderfoot'' = Some p \<and> 1 \<le> max_retries cfg" for p
  proof -
    obtain r w1 where ex: "execute_agent run PY p [value] cfg (Some env) w = (r, w1)"
      by (cases "execute_agent run PY p [value] cfg (Some env) w")
    have "actions w (snd (run_spiderfoot run PY kind value cfg (Some env) w)) = actions w w1"
      using that ex run_spiderfoot_actions by blast
    then show ?thesis unfolding s using execute_agent_first_launch [OF _ ex] that by simp
  qed
next
  assume k: "kind \<notin> {''username'', ''domain'', ''email'', ''ip'', ''phone''}"
  then have 1: "kind \<noteq> ''username''" and 2: "kind \<notin> {''domain'', ''email'', ''ip'', ''phone''}"
    by auto
  have d: "dispatch_task run PY cfg env kind value w =
     (\<lparr>target = value, agent = ''unknown'', status = FAILED,
         start_time = Some (now w), end_time = Some (now w),
         task_returncode = None, error = Some (''unknown type '' @ kind)\<rparr>,
      logger_warning ''Unknown type '%s', skipping %s'' [kind, value] w)"
    unfolding dispatch_task_def using 1 2 by (simp only: if_False Let_def)
  show "fst (dispatch_task run PY cfg env kind value w) =
        \<lparr>target = value, agent = ''unknown'', status = FAILED,
         start_time = Some (clock w), end_time = Some (clock w),
         task_returncode = None, error = Some (''unknown type '' @ kind)\<rparr>"
    unfolding d by (simp add: now_def)
  show "actions w (snd (dispatch_task run PY cfg env kind value w)) = []"
    unfolding d by (simp add: actions_logger)
qed

text \<open>The kind \<open>carrier-pigeon\<close>.\<close>

theorem dispatch_task_routing_witness:
  "''carrier-pigeon'' \<notin> {''username'', ''domain'', ''email'', ''ip'', ''phone''} \<and>
   error (fst (dispatch_task always_raises ''python3'' demo_cfg Map.empty
                 ''carrier-pigeon'' ''x'' start)) = Some ''unknown type carrier-pigeon'' \<and>
   status (fst (dispatch_task always_raises ''python3'' demo_cfg Map.empty
                 ''carrier-pigeon'' ''x'' start)) = FAILED \<and>
   actions start (snd (dispatch_task always_raises ''python3'' demo_cfg Map.empty
                 ''carrier-pigeon'' ''x'' start)) = []"
proof -
  have k: "''carrier-pigeon'' \<notin> {''username'', ''domain'', ''email'', ''ip'', ''phone''}"
    by simp
  from k dispatch_task_routing [of "''carrier-pigeon''" always_raises "''python3''" demo_cfg
      Map.empty "''x''" start]
  show ?thesis by simp
qed

text \<open>
  C5: the result of a task that runs a tool. Its start time is the time at which the retry
  policy is entered and its end time the time at which the policy returns or raises. When
  the policy returns, the status is completed exactly when the exit code is zero and
  failed otherwise, the return code is recorded, and the error is \<^verbatim>\<open>exit\<close> with the code
  for a code other than zero and absent for zero. When the policy raises, the status is
  failed and the error is the text of the fault.
\<close>

theorem task_result_of_policy:
  "(agents cfg ''username'' = Some p \<and> execute_agent run PY p [v] cfg env w = (r, w1) \<and>
    run_username run PY v cfg env w = (t, w') \<longrightarrow>
      start_time t = Some (clock w) \<and> end_time t = Some (clock w1) \<and>
      (case r of
         Inr cp \<Rightarrow>
           (status t = COMPLETED \<longleftrightarrow> returncode cp = 0) \<and>
           (status t = FAILED \<longleftrightarrow> returncode cp \<noteq> 0) \<and>
           task_returncode t = Some (returncode cp) \<and>
           error t = (if returncode cp = 0 then None
                      else Some (''exit '' @ str_int (returncode cp)))
       | Inl e \<Rightarrow> status t = FAILED \<and> error t = Some (str e) \<and> task_returncode t = None))
   \<and> (agents cfg ''spiderfoot'' = Some p \<and> execute_agent run PY p [v] cfg env w = (r, w1) \<and>
    run_spiderfoot run PY kind v cfg env w = (t, w') \<longrightarrow>
      start_time t = Some (clock w) \<and> end_time t = Some (clock w1) \<and>
      (case r of
         Inr cp \<Rightarrow>
           (status t = COMPLETED \<longleftrightarrow> returncode cp = 0) \<and>
           (status t = FAILED \<longleftrightarrow> returncode cp \<noteq> 0) \<and>
           task_returncode t = Some (returncode cp) \<and>
           error t = (if returncode cp = 0 then None
                      else Some (''exit '' @ str_int (returncode cp)))
       | Inl e \<Rightarrow> status t = FAILED \<and> error t = Some (str e) \<and> task_returncode t = None))"
proof (intro conjI impI)
  assume a: "agents cfg ''username'' = Some p \<and>
    execute_agent run PY p [v] cfg env w = (r, w1) \<and>
    run_username run PY v cfg env w = (t, w')"
  then have t: "t = settle \<lparr>target = v, agent = ''username'', status = RUNNING,
                start_time = Some (clock w), end_time = None, task_returncode = None,
                error = None\<rparr> r (clock w1)"
    using run_username_Some [of cfg p run PY v env w r w1] by simp
  show "start_time t = Some (clock w)" "end_time t = Some (clock w1)"
    unfolding t by (cases r; simp add: settle_def)+
  show "case r of
         Inr cp \<Rightarrow>
           (status t = COMPLETED \<longleftrightarrow> returncode cp = 0) \<and>
           (status t = FAILED \<longleftrightarrow> returncode cp \<noteq> 0) \<and>
           task_returncode t = Some (returncode cp) \<and>
           error t = (if returncode cp = 0 then None
                      else Some (''exit '' @ str_int (returncode cp)))
       | Inl e \<Rightarrow> status t = FAILED \<and> error t = Some (str e) \<and> task_returncode t = None"
    unfolding t by (cases r; simp add: settle_def)
next
  assume a: "agents cfg ''spiderfoot'' = Some p \<and>
    execute_agent run PY p [v] cfg env w = (r, w1) \<and>
    run_spiderfoot run PY kind v cfg env w = (t, w')"
  then have t: "t = settle \<lparr>target = kind @ '':'' @ v, agent = ''spiderfoot'',
                status = RUNNING,
                start_time = Some (clock w), end_time = None, task_returncode = None,
                error = None\<rparr> r (clock w1)"
    using run_spiderfoot_Some [of cfg p run PY v env w r w1 kind] by simp
  show "start_time t = Some (clock w)" "end_time t = Some (clock w1)"
    unfolding t by (cases r; simp add: settle_def)+
  show "case r of
         Inr cp \<Rightarrow>
           (status t = COMPLETED \<longleftrightarrow> returncode cp = 0) \<and>
           (status t = FAILED \<longleftrightarrow> returncode cp \<noteq> 0) \<and>
           task_returncode t = Some (returncode cp) \<and>
           error t = (if returncode cp = 0 then None
                      else Some (''exit '' @ str_int (returncode cp)))
       | Inl e \<Rightarrow> status t = FAILED \<and> error t = Some (str e) \<and> task_returncode t = None"
    unfolding t by (cases r; simp add: settle_def)
qed



section \<open>Faults in the pool, failures of the report step\<close>

text \<open>
  C8: in the pool, a fault of one call does not touch the others. Whatever function is
  submitted, once the pool exists the block ends with one result for each task: where the
  call returned, what it returned; where it raised, a failed result for that task whose
  error is the text of the fault. The results come in the order in which the futures
  complete, which names each task once.
\<close>

theorem run_pool_isolates_faults:
  assumes "0 < max_workers"
  shows "\<exists>rs w'. run_pool fn max_workers tasks obs finish [] w = (Inr rs, w') \<and>
           length rs = length tasks \<and>
           distinct (sort_key finish [0..<length tasks]) \<and>
           set (sort_key finish [0..<length tasks]) = {..<length tasks} \<and>
           (\<forall>j < length tasks.
              (\<forall>res. fst (fn (fst (tasks ! (sort_key finish [0..<length tasks] ! j)))
                            (snd (tasks ! (sort_key finish [0..<length tasks] ! j)))
                            (obs (sort_key finish [0..<length tasks] ! j))) = Inr res \<longrightarrow>
                     rs ! j = res) \<and>
              (\<forall>e. fst (fn (fst (tasks ! (sort_key finish [0..<length tasks] ! j)))
                          (snd (tasks ! (sort_key finish [0..<length tasks] ! j)))
                          (obs (sort_key finish [0..<length tasks] ! j))) = Inl e \<longrightarrow>
                   (\<exists>at. rs ! j =
                      \<lparr>target = fst (tasks ! (sort_key finish [0..<length tasks] ! j)) @ '':'' @
                                 snd (tasks ! (sort_key finish [0..<length tasks] ! j)),
                       agent = ''unknown'', status = FAILED, start_time = Some at,
                       end_time = Some at, task_returncode = None,
                       error = Some (str e)\<rparr>)))"
proof -
  let ?ord = "sort_key finish [0..<length tasks]"
  let ?futs = "map (\<lambda>i. submit fn (fst (tasks ! i)) (snd (tasks ! i)) (obs i)) ?ord"
  obtain rs ats w' where p: "run_pool fn max_workers tasks obs finish [] w = (Inr rs, w')"
    "length ats = length tasks" "rs = map2 yielded ?futs ats"
    using run_pool_results [OF assms, of fn tasks obs finish w] by (elim exE conjE)
  have len: "length rs = length tasks" using p(2,3) by simp
  have nth: "rs ! j = yielded (submit fn (fst (tasks ! (?ord ! j))) (snd (tasks ! (?ord ! j)))
                                 (obs (?ord ! j))) (ats ! j)"
    if "j < length tasks" for j
    using that p(2,3) by simp
  have ok: "rs ! j = res"
    if "j < length tasks"
      "fst (fn (fst (tasks ! (?ord ! j))) (snd (tasks ! (?ord ! j))) (obs (?ord ! j))) = Inr res"
    for j res
    using that nth [OF that(1)] by (simp add: yielded_def submit_sel)
  have bad: "\<exists>at. rs ! j =
                      \<lparr>target = fst (tasks ! (?ord ! j)) @ '':'' @ snd (tasks ! (?ord ! j)),
                       agent = ''unknown'', status = FAILED, start_time = Some at,
                       end_time = Some at, task_returncode = None,
                       error = Some (str e)\<rparr>"
    if "j < length tasks"
      "fst (fn (fst (tasks ! (?ord ! j))) (snd (tasks ! (?ord ! j))) (obs (?ord ! j))) = Inl e"
    for j e
    using that nth [OF that(1)] by (intro exI [of _ "ats ! j"]) (simp add: yielded_def submit_sel)
  show ?thesis
    using p(1) len sort_key_range(2,3) [of finish "length tasks"] ok bad
    by (intro exI [of _ rs] exI [of _ w'] conjI allI impI) auto
qed

text \<open>Three tasks of which the second raises; the futures complete in reverse order.\<close>

theorem run_pool_isolates_faults_witness:
  "0 < (4::int) \<and>
   fst (run_pool faulty_worker 4 demo_tasks demo_obs demo_finish [] start) =
     Inr [\<lparr>target = ''example.com'', agent = ''domain'', status = COMPLETED,
            start_time = Some 20, end_time = Some 20, task_returncode = Some 0, error = None\<rparr>,
          \<lparr>target = ''username:bad'', agent = ''unknown'', status = FAILED,
            start_time = Some 20, end_time = Some 20, task_returncode = None,
            error = Some ''boom''\<rparr>,
          \<lparr>target = ''alice'', agent = ''username'', status = COMPLETED,
            start_time = Some 0, end_time = Some 0, task_returncode = Some 0, error = None\<rparr>] \<and>
   (\<exists>rs w'. run_pool faulty_worker 4 demo_tasks demo_obs demo_finish [] start = (Inr rs, w') \<and>
      length rs = length demo_tasks)"
proof -
  have h: "0 < (4::int)" by simp
  have e: "fst (run_pool faulty_worker 4 demo_tasks demo_obs demo_finish [] start) =
     Inr [\<lparr>target = ''example.com'', agent = ''domain'', status = COMPLETED,
            start_time = Some 20, end_time = Some 20, task_returncode = Some 0, error = None\<rparr>,
          \<lparr>target = ''username:bad'', agent = ''unknown'', status = FAILED,
            start_time = Some 20, end_time = Some 20, task_returncode = None,
            error = Some ''boom''\<rparr>,
          \<lparr>target = ''alice'', agent = ''username'', status = COMPLETED,
            start_time = Some 0, end_time = Some 0, task_returncode = Some 0, error = None\<rparr>]"
    by code_simp
  obtain rs w' where "run_pool faulty_worker 4 demo_tasks demo_obs demo_finish [] start = (Inr rs, w')"
    "length rs = length demo_tasks"
    using run_pool_isolates_faults [OF h, of faulty_worker demo_tasks demo_obs demo_finish start]
    by (elim exE conjE)
  then have "\<exists>rs w'. run_pool faulty_worker 4 demo_tasks demo_obs demo_finish [] start = (Inr rs, w') \<and>
      length rs = length demo_tasks"
    by (intro exI [of _ rs] exI [of _ w'] conjI)
  with h e show ?thesis by (intro conjI)
qed

lemma trace_final_status:
  "trace (final_status cfg report_name results w) =
     trace w @ [Log Info ''Investigation complete: %d/%d tasks successful''
                  [str_nat (length (filter (\<lambda>r. status r = COMPLETED) results)),
                   str_nat (length results)],
                Log Info ''Report: %s'' [path_join (report_dir cfg) report_name]]"
  by (simp add: final_status_def logger_info_def Let_def)

text \<open>
  C9: a failure of the report step does not change the tally. Once the dispatcher has
  returned its results, \<^verbatim>\<open>main\<close> ends normally and its last two log records are the count
  of completed results out of all results and the path of the report, whatever the
  summary agent does; when the retry policy raises for the summary agent, the record just
  before them is that of the failure, with the text of the fault.
\<close>

theorem summary_failure_keeps_tally:
  assumes "dispatch run PY cfg env targets obs finish w = (Inr results, w1)"
  shows "\<exists>w2 es. main run PY cfg env report_name targets obs finish w = (Inr (), w2) \<and>
           trace w2 = trace w1 @ es @
             [Log Info ''Investigation complete: %d/%d tasks successful''
                [str_nat (length (filter (\<lambda>r. status r = COMPLETED) results)),
                 str_nat (length results)],
              Log Info ''Report: %s'' [path_join (report_dir cfg) report_name]] \<and>
           (\<forall>p e w'. agents cfg ''summary'' = Some p \<and>
              execute_agent run PY p [] cfg (Some env)
                (logger_info (''Building summary'' @ ellipsis) [] w1) = (Inl e, w') \<longrightarrow>
              es \<noteq> [] \<and> last es = Log Exception ''Summary generation failed: %s'' [str e])"
proof -
  let ?w = "build_summary run PY cfg env w1"
  have tasks: "map (\<lambda>(kind, value). (kind, value)) targets = targets" by simp
  have m: "main run PY cfg env report_name targets obs finish w =
             (Inr (), final_status cfg report_name results ?w)"
    unfolding main_def Let_def tasks assms by simp
  obtain es where es: "trace ?w = trace w1 @ es"
    using build_summary_extends [of w1 run PY cfg env] by (auto simp: extends_def)
  have t: "trace (final_status cfg report_name results ?w) = trace w1 @ es @
             [Log Info ''Investigation complete: %d/%d tasks successful''
                [str_nat (length (filter (\<lambda>r. status r = COMPLETED) results)),
                 str_nat (length results)],
              Log Info ''Report: %s'' [path_join (report_dir cfg) report_name]]"
    unfolding trace_final_status es by simp
  have f: "es \<noteq> [] \<and> last es = Log Exception ''Summary generation failed: %s'' [str e]"
    if "agents cfg ''summary'' = Some p \<and>
              execute_agent run PY p [] cfg (Some env)
                (logger_info (''Building summary'' @ ellipsis) [] w1) = (Inl e, w')"
    for p e w'
  proof -
    have b: "?w = logger_exception ''Summary generation failed: %s'' [str e] w'"
      using that build_summary_failure by simp
    have "extends w1 (logger_info (''Building summary'' @ ellipsis) [] w1)"
      by (rule extends_logger)
    moreover have "extends (logger_info (''Building summary'' @ ellipsis) [] w1) w'"
      using that execute_agent_extends by blast
    ultimately have "extends w1 w'" by (rule extends_trans)
    then obtain es' where "trace w' = trace w1 @ es'" by (auto simp: extends_def)
    then have "trace ?w = trace w1 @ es' @ [Log Exception ''Summary generation failed: %s'' [str e]]"
      unfolding b by (simp add: logger_exception_def)
    then have "es = es' @ [Log Exception ''Summary generation failed: %s'' [str e]]"
      using es by simp
    then show ?thesis by simp
  qed
  show ?thesis using m t f
    by (intro exI [of _ "final_status cfg report_name results ?w"] exI [of _ es] conjI allI impI)
      auto
qed

section \<open>The examples, evaluated\<close>

lemmas run_defs = execute_agent_def sh_def subprocess_run_def logger_info_def
  logger_warning_def logger_error_def logger_exception_def sleep_def actions_def
  events_since_def Let_def upto.simps now_def

lemmas demo_defs = demo_cfg_def always_raises_def always_exits_def times_out_def start_def



text \<open>
  Both cases on an example with three attempts: launches that never start, with sleeps of
  1 and 2 seconds between them, and a process that exits at once.
\<close>

theorem execute_agent_backoff_witness:
  "(\<exists>excs. length excs = nat (max_retries demo_cfg) \<and>
      actions start (snd (execute_agent always_raises ''python3'' ''/repo/agents/username_agent.py''
                            [''alice''] demo_cfg None start)) =
        backoff_trace [''python3'', ''/repo/agents/username_agent.py'', ''alice''] 0 excs \<and>
      fst (execute_agent always_raises ''python3'' ''/repo/agents/username_agent.py''
             [''alice''] demo_cfg None start) =
        Inl (if excs = [] then Exn RuntimeError ''Unknown execution failure'' else last excs))
   \<and> actions start (snd (execute_agent always_raises ''python3''
                            ''/repo/agents/username_agent.py'' [''alice''] demo_cfg None start)) =
        [Launch [''python3'', ''/repo/agents/username_agent.py'', ''alice'']
           (Inl (Exn OtherException ''No such file'')),
         Sleep 1,
         Launch [''python3'', ''/repo/agents/username_agent.py'', ''alice'']
           (Inl (Exn OtherException ''No such file'')),
         Sleep 2,
         Launch [''python3'', ''/repo/agents/username_agent.py'', ''alice'']
           (Inl (Exn OtherException ''No such file''))]
   \<and> actions start (snd (execute_agent (always_exits 0) ''python3''
                            ''/repo/agents/username_agent.py'' [''alice''] demo_cfg None start)) =
        [Launch [''python3'', ''/repo/agents/username_agent.py'', ''alice'']
           (Inr \<lparr>returncode = 0, stdout = [], stderr = []\<rparr>)]
   \<and> fst (execute_agent (always_exits 0) ''python3'' ''/repo/agents/username_agent.py''
            [''alice''] demo_cfg None start) = Inr \<lparr>returncode = 0, stdout = [], stderr = []\<rparr>"
proof -
  let ?cmd = "[''python3'', ''/repo/agents/username_agent.py'', ''alice'']"
  let ?a = "execute_agent always_raises ''python3'' ''/repo/agents/username_agent.py''
              [''alice''] demo_cfg None start"
  let ?b = "execute_agent (always_exits 0) ''python3'' ''/repo/agents/username_agent.py''
              [''alice''] demo_cfg None start"
  have a: "actions start (snd ?a) =
        [Launch ?cmd (Inl (Exn OtherException ''No such file'')), Sleep 1,
         Launch ?cmd (Inl (Exn OtherException ''No such file'')), Sleep 2,
         Launch ?cmd (Inl (Exn OtherException ''No such file''))]"
    by (simp add: run_defs demo_defs)
  have b: "actions start (snd ?b) =
        [Launch ?cmd (Inr \<lparr>returncode = 0, stdout = [], stderr = []\<rparr>)]"
    by (simp add: run_defs demo_defs)
  have all: "\<forall>c out. Launch c out \<in> set (actions start (snd ?a)) \<longrightarrow> isl out"
    unfolding a by auto
  have pa: "?a = (fst ?a, snd ?a)" and pb: "?b = (fst ?b, snd ?b)" by simp_all
  have 1: "\<exists>excs. length excs = nat (max_retries demo_cfg) \<and>
      actions start (snd ?a) = backoff_trace ?cmd 0 excs \<and>
      fst ?a = Inl (if excs = [] then Exn RuntimeError ''Unknown execution failure''
                    else last excs)"
    using execute_agent_backoff [OF pa] all by simp
  have 2: "fst ?b = Inr \<lparr>returncode = 0, stdout = [], stderr = []\<rparr>"
    using execute_agent_backoff [OF pb] b by simp
  from 1 a b 2 show ?thesis by (intro conjI)
qed


text \<open>An agent that exits with 3, and one that never starts.\<close>

theorem task_result_of_policy_witness:
  "agents demo_cfg ''username'' = Some ''/repo/agents/username_agent.py'' \<and>
   start_time (fst (run_username (always_exits 3) ''python3'' ''alice'' demo_cfg None start))
     = Some 0 \<and>
   end_time (fst (run_username (always_exits 3) ''python3'' ''alice'' demo_cfg None start))
     = Some 2 \<and>
   status (fst (run_username (always_exits 3) ''python3'' ''alice'' demo_cfg None start))
     = FAILED \<and>
   error (fst (run_username (always_exits 3) ''python3'' ''alice'' demo_cfg None start))
     = Some ''exit 3'' \<and>
   agents demo_cfg ''spiderfoot'' = Some ''/repo/agents/spiderfoot_agent.py'' \<and>
   status (fst (run_spiderfoot always_raises ''python3'' ''ip'' ''10.0.0.1'' demo_cfg None start))
     = FAILED \<and>
   error (fst (run_spiderfoot always_raises ''python3'' ''ip'' ''10.0.0.1'' demo_cfg None start))
     = Some ''No such file'' \<and>
   end_time (fst (run_spiderfoot always_raises ''python3'' ''ip'' ''10.0.0.1'' demo_cfg None start))
     = Some 6"
proof -
  let ?cp = "\<lparr>returncode = 3, stdout = [], stderr = []\<rparr>"
  let ?x = "execute_agent (always_exits 3) ''python3'' ''/repo/agents/username_agent.py''
              [''alice''] demo_cfg None start"
  let ?y = "execute_agent always_raises ''python3'' ''/repo/agents/spiderfoot_agent.py''
              [''10.0.0.1''] demo_cfg None start"
  let ?u = "run_username (always_exits 3) ''python3'' ''alice'' demo_cfg None start"
  let ?s = "run_spiderfoot always_raises ''python3'' ''ip'' ''10.0.0.1'' demo_cfg None start"
  have au: "agents demo_cfg ''username'' = Some ''/repo/agents/username_agent.py''"
    and as: "agents demo_cfg ''spiderfoot'' = Some ''/repo/agents/spiderfoot_agent.py''"
    by (simp_all add: demo_cfg_def)
  have fx: "fst ?x = Inr ?cp" by (simp add: run_defs demo_defs)
  have cx: "clock (snd ?x) = 2" by (simp add: run_defs demo_defs)
  have fy: "fst ?y = Inl (Exn OtherException ''No such file'')" by (simp add: run_defs demo_defs)
  have cy: "clock (snd ?y) = 6" by (simp add: run_defs demo_defs)
  have px: "?x = (Inr ?cp, snd ?x)" using fx by (simp add: prod_eq_iff)
  have py: "?y = (Inl (Exn OtherException ''No such file''), snd ?y)"
    using fy by (simp add: prod_eq_iff)
  have pu: "?u = (fst ?u, snd ?u)" and ps: "?s = (fst ?s, snd ?s)" by simp_all
  have s3: "str_int 3 = ''3''" by code_simp
  have c0: "clock start = 0" by (simp add: start_def)
  note u = task_result_of_policy [where cfg = demo_cfg
      and p = "''/repo/agents/username_agent.py''" and run = "always_exits 3"
      and PY = "''python3''" and v = "''alice''" and env = None and w = start
      and r = "Inr ?cp" and ?w1.0 = "snd ?x" and t = "fst ?u" and w' = "snd ?u"]
  note s = task_result_of_policy [where cfg = demo_cfg
      and p = "''/repo/agents/spiderfoot_agent.py''" and run = always_raises
      and PY = "''python3''" and v = "''10.0.0.1''" and kind = "''ip''"
      and env = None and w = start
      and r = "Inl (Exn OtherException ''No such file'')" and ?w1.0 = "snd ?y"
      and t = "fst ?s" and w' = "snd ?s"]
  have 1: "start_time (fst ?u) = Some 0" "end_time (fst ?u) = Some 2"
    "status (fst ?u) = FAILED" "error (fst ?u) = Some ''exit 3''"
    using u au px pu cx s3 c0 by simp_all
  have 2: "status (fst ?s) = FAILED" "error (fst ?s) = Some ''No such file''"
    "end_time (fst ?s) = Some 6"
    using s as py ps cy by simp_all
  from au 1 as 2 show ?thesis by (intro conjI)
qed



text \<open>Three targets and a summary agent that never starts.\<close>

theorem summary_failure_keeps_tally_witness:
  "\<exists>results w1 w2 es.
     dispatch always_raises ''python3'' demo_cfg Map.empty demo_targets demo_obs demo_finish
       start = (Inr results, w1) \<and>
     main always_raises ''python3'' demo_cfg Map.empty ''case-1.txt'' demo_targets
       demo_obs demo_finish start = (Inr (), w2) \<and>
     trace w2 = trace w1 @ es @
       [Log Info ''Investigation complete: %d/%d tasks successful''
          [str_nat (length (filter (\<lambda>r. status r = COMPLETED) results)),
           str_nat (length results)],
        Log Info ''Report: %s'' [path_join (report_dir demo_cfg) ''case-1.txt'']] \<and>
     length results = 3 \<and>
     es \<noteq> [] \<and> last es = Log Exception ''Summary generation failed: %s'' [''No such file'']"
proof -
  have seq: "\<not> (parallel demo_cfg \<and> demo_targets \<noteq> [])" by (simp add: demo_cfg_def)
  obtain results w1 where d: "dispatch always_raises ''python3'' demo_cfg Map.empty demo_targets
              demo_obs demo_finish start = (Inr results, w1)"
    and len: "length results = length demo_targets"
    using dispatch_sequential [OF seq, of always_raises "''python3''" Map.empty demo_obs
        demo_finish start] by (elim exE conjE)
  have l3: "length results = 3" using len by (simp add: demo_targets_def)
  let ?x = "execute_agent always_raises ''python3'' ''/repo/agents/summary_agent.py'' [] demo_cfg
              (Some Map.empty) (logger_info (''Building summary'' @ ellipsis) [] w1)"
  have ag: "agents demo_cfg ''summary'' = Some ''/repo/agents/summary_agent.py''"
    by (simp add: demo_cfg_def)
  have fx: "fst ?x = Inl (Exn OtherException ''No such file'')"
    by (simp add: run_defs demo_defs)
  then have px: "?x = (Inl (Exn OtherException ''No such file''), snd ?x)"
    by (simp add: prod_eq_iff)
  obtain w2 es where m: "main always_raises ''python3'' demo_cfg Map.empty ''case-1.txt''
       demo_targets demo_obs demo_finish start = (Inr (), w2)"
    "trace w2 = trace w1 @ es @
       [Log Info ''Investigation complete: %d/%d tasks successful''
          [str_nat (length (filter (\<lambda>r. status r = COMPLETED) results)),
           str_nat (length results)],
        Log Info ''Report: %s'' [path_join (report_dir demo_cfg) ''case-1.txt'']]"
    "\<forall>p e w'. agents demo_cfg ''summary'' = Some p \<and>
              execute_agent always_raises ''python3'' p [] demo_cfg (Some Map.empty)
                (logger_info (''Building summary'' @ ellipsis) [] w1) = (Inl e, w') \<longrightarrow>
              es \<noteq> [] \<and> last es = Log Exception ''Summary generation failed: %s'' [str e]"
    using summary_failure_keeps_tally [OF d, of "''case-1.txt''"] by (elim exE conjE)
  have "es \<noteq> [] \<and> last es = Log Exception ''Summary generation failed: %s''
          [str (Exn OtherException ''No such file'')]"
    using m(3) [rule_format, of "''/repo/agents/summary_agent.py''"
        "Exn OtherException ''No such file''" "snd ?x"] ag px by simp
  then have e: "es \<noteq> []"
    "last es = Log Exception ''Summary generation failed: %s'' [''No such file'']"
    by simp_all
  from d m(1,2) l3 e show ?thesis
    by (intro exI [of _ results] exI [of _ w1] exI [of _ w2] exI [of _ es] conjI)
qed

end
